theory Spec2Isabelle
  imports Complex_Main "HOL-Library.Sublist" "HOL-Library.Multiset"
begin

section \<open>Numbers, errors and the data model of \<^verbatim>\<open>cli.py\<close>\<close>

text \<open>
  Python's \<^verbatim>\<open>float\<close> is modelled by exact real arithmetic: \<^typ>\<open>real\<close> for every
  coordinate, parameter and finite distance. The one non-finite value the code writes
  down itself, \<^verbatim>\<open>float("inf")\<close>, is the constructor \<open>PInf\<close> of \<open>pyfloat\<close>; distances
  that are compared with it, and \<^verbatim>\<open>maxdist\<close> (parsed by \<^verbatim>\<open>argparse\<close> with
  \<^verbatim>\<open>type=float\<close>, which accepts \<^verbatim>\<open>inf\<close>), have that type. Rounding, NaN and
  negative infinity are outside the model.
\<close>

datatype pyfloat = Fin real | PInf

fun float_less :: "pyfloat \<Rightarrow> pyfloat \<Rightarrow> bool" where
  "float_less (Fin x) (Fin y) = (x < y)"
| "float_less (Fin x) PInf = True"
| "float_less PInf y = False"

text \<open>\<^verbatim>\<open>x > y\<close> is \<^verbatim>\<open>y < x\<close>.\<close>

definition float_greater :: "pyfloat \<Rightarrow> pyfloat \<Rightarrow> bool" where
  "float_greater x y = float_less y x"

text \<open>
  The exceptions the core can raise: \<^verbatim>\<open>ValueError\<close> (\<^verbatim>\<open>math domain error\<close>) from
  \<^verbatim>\<open>math.sqrt\<close> and \<^verbatim>\<open>math.asin\<close>, \<^verbatim>\<open>IndexError\<close> from list indexing.
  A function that can raise returns \<open>error + 'a\<close>, with \<open>Inl\<close> for the exception.
\<close>

datatype error = ValueError | IndexError

definition bind_result :: "error + 'a \<Rightarrow> ('a \<Rightarrow> error + 'b) \<Rightarrow> error + 'b" where
  "bind_result m f = (case m of Inl e \<Rightarrow> Inl e | Inr x \<Rightarrow> f x)"

text \<open>\<^verbatim>\<open>xs[i]\<close> for an index that is never negative.\<close>

definition getitem :: "'a list \<Rightarrow> nat \<Rightarrow> error + 'a" where
  "getitem xs i = (if i < length xs then Inr (xs ! i) else Inl IndexError)"

text \<open>
  \<^verbatim>\<open>for x in xs: body\<close> over a loop state, stopping at the first exception.
\<close>

fun for_loop :: "('a \<Rightarrow> 's \<Rightarrow> error + 's) \<Rightarrow> 'a list \<Rightarrow> 's \<Rightarrow> error + 's" where
  "for_loop body [] s = Inr s"
| "for_loop body (x # xs) s =
     (case body x s of Inl e \<Rightarrow> Inl e | Inr s' \<Rightarrow> for_loop body xs s')"

text \<open>
  A \<^verbatim>\<open>gpxpy\<close> point (\<^verbatim>\<open>GPXTrackPoint\<close>, \<^verbatim>\<open>GPXWaypoint\<close>): the two coordinates the
  core reads and writes, elevation and time, and every other attribute (name, comment,
  symbol, dilutions, speed, extensions) as one opaque value that is absent on a point
  built from coordinates alone.
\<close>

record 'm geo_point =
  latitude :: real
  longitude :: real
  elevation :: "real option"
  time :: "int option"
  metadata :: "'m option"

record 'm track_segment =
  points :: "'m geo_point list"

record 'm track =
  segments :: "'m track_segment list"

record 'm gpx =
  waypoints :: "'m geo_point list"
  tracks :: "'m track list"

section \<open>Distance metric: \<^verbatim>\<open>haversine\<close>\<close>

definition EARTH_RADIUS :: real where
  "EARTH_RADIUS = 6371000"

definition radians :: "real \<Rightarrow> real" where
  "radians v = v * pi / 180"

definition math_sqrt :: "real \<Rightarrow> error + real" where
  "math_sqrt x = (if x < 0 then Inl ValueError else Inr (sqrt x))"

definition math_asin :: "real \<Rightarrow> error + real" where
  "math_asin x = (if x < - 1 \<or> 1 < x then Inl ValueError else Inr (arcsin x))"

text \<open>Line 18: the value \<^verbatim>\<open>a\<close> handed to the square root.\<close>

definition haversine_a :: "real \<Rightarrow> real \<Rightarrow> real \<Rightarrow> real \<Rightarrow> real" where
  "haversine_a lat1 lon1 lat2 lon2 =
     (let rlat1 = radians lat1; rlon1 = radians lon1;
          rlat2 = radians lat2; rlon2 = radians lon2;
          dlat = rlat2 - rlat1;
          dlon = rlon2 - rlon1
      in (sin (dlat / 2))\<^sup>2 + cos rlat1 * cos rlat2 * (sin (dlon / 2))\<^sup>2)"

text \<open>Line 19: \<^verbatim>\<open>return 2 * EARTH_RADIUS * math.asin(math.sqrt(a))\<close>.\<close>

definition haversine_return :: "real \<Rightarrow> error + real" where
  "haversine_return a =
     bind_result (math_sqrt a) (\<lambda>s.
     bind_result (math_asin s) (\<lambda>r.
       Inr (2 * EARTH_RADIUS * r)))"

definition haversine :: "real \<Rightarrow> real \<Rightarrow> real \<Rightarrow> real \<Rightarrow> error + real" where
  "haversine lat1 lon1 lat2 lon2 = haversine_return (haversine_a lat1 lon1 lat2 lon2)"

text \<open>The number \<open>haversine\<close> returns when neither library call raises.\<close>

definition haversine_value :: "real \<Rightarrow> real \<Rightarrow> real \<Rightarrow> real \<Rightarrow> real" where
  "haversine_value lat1 lon1 lat2 lon2 =
     2 * EARTH_RADIUS * arcsin (sqrt (haversine_a lat1 lon1 lat2 lon2))"

section \<open>Segment projector: \<^verbatim>\<open>project_onto_segment\<close>\<close>

definition project_onto_segment ::
  "real \<Rightarrow> real \<Rightarrow> real \<Rightarrow> real \<Rightarrow> real \<Rightarrow> real \<Rightarrow> real \<times> real \<times> real" where
  "project_onto_segment wlat wlon alat alon blat blon =
     (let cos_lat = cos (radians ((alat + blat) / 2));
          a_x = alon * cos_lat; a_y = alat;
          b_x = blon * cos_lat; b_y = blat;
          w_x = wlon * cos_lat; w_y = wlat;
          dx = b_x - a_x; dy = b_y - a_y;
          len_sq = dx * dx + dy * dy
      in if len_sq = 0 then (alat, alon, 0)
         else
           (let t0 = ((w_x - a_x) * dx + (w_y - a_y) * dy) / len_sq;
                t = max 0 (min 1 t0);
                plat = alat + t * (blat - alat);
                plon = alon + t * (blon - alon)
            in (plat, plon, t)))"

section \<open>Track matcher: \<^verbatim>\<open>find_closest_on_segment\<close> and \<^verbatim>\<open>find_closest_vertex\<close>\<close>

text \<open>
  The loop state of lines 60 to 64:
  \<open>(best_dist, best_seg_idx, best_plat, best_plon, best_t)\<close>.
\<close>

type_synonym best = "pyfloat \<times> nat \<times> real \<times> real \<times> real"

text \<open>
  The value returned:
  \<open>(min_dist, seg_idx, projected_lat, projected_lon, t, vertex_idx)\<close>.
\<close>

type_synonym match_result = "pyfloat \<times> nat \<times> real \<times> real \<times> real \<times> nat option"

text \<open>Lines 67 to 79: the body of the loop over the edges.\<close>

definition edge_body :: "'m geo_point \<Rightarrow> 'm geo_point list \<Rightarrow> nat \<Rightarrow> best \<Rightarrow> error + best" where
  "edge_body wpt pts i best =
     (case best of (best_dist, best_seg_idx, best_plat, best_plon, best_t) \<Rightarrow>
        bind_result (getitem pts i) (\<lambda>a.
        bind_result (getitem pts (i + 1)) (\<lambda>b.
          case project_onto_segment (latitude wpt) (longitude wpt)
                 (latitude a) (longitude a) (latitude b) (longitude b) of
            (plat, plon, t) \<Rightarrow>
              bind_result (haversine (latitude wpt) (longitude wpt) plat plon) (\<lambda>d.
                if float_less (Fin d) best_dist then Inr (Fin d, i, plat, plon, t)
                else Inr (best_dist, best_seg_idx, best_plat, best_plon, best_t)))))"

definition TOLERANCE :: real where
  "TOLERANCE = 0.05"

text \<open>Lines 89 to 107: does the projected point coincide with an existing vertex?\<close>

definition classify_vertex :: "'m geo_point list \<Rightarrow> best \<Rightarrow> error + match_result" where
  "classify_vertex pts best =
     (case best of (best_dist, best_seg_idx, best_plat, best_plon, best_t) \<Rightarrow>
        if best_t < 1 / 10 ^ 9 then
          Inr (best_dist, best_seg_idx, best_plat, best_plon, best_t, Some best_seg_idx)
        else if best_t > 1 - 1 / 10 ^ 9 then
          Inr (best_dist, best_seg_idx, best_plat, best_plon, best_t, Some (best_seg_idx + 1))
        else
          bind_result (getitem pts best_seg_idx) (\<lambda>pa.
          bind_result (haversine best_plat best_plon (latitude pa) (longitude pa)) (\<lambda>d_a.
          bind_result (getitem pts (best_seg_idx + 1)) (\<lambda>pb.
          bind_result (haversine best_plat best_plon (latitude pb) (longitude pb)) (\<lambda>d_b.
            Inr (best_dist, best_seg_idx, best_plat, best_plon, best_t,
                 if d_a < TOLERANCE then Some best_seg_idx
                 else if d_b < TOLERANCE then Some (best_seg_idx + 1)
                 else None))))))"

definition find_closest_on_segment ::
  "'m geo_point \<Rightarrow> 'm track_segment \<Rightarrow> error + match_result" where
  "find_closest_on_segment wpt segment =
     (let pts = points segment in
      if pts = [] then Inr (PInf, 0, 0, 0, 0, None)
      else
        bind_result (for_loop (edge_body wpt pts) [0 ..< length pts - 1] (PInf, 0, 0, 0, 0))
          (\<lambda>best.
             if length pts = 1 then
               bind_result (getitem pts 0) (\<lambda>p.
               bind_result (haversine (latitude wpt) (longitude wpt) (latitude p) (longitude p))
                 (\<lambda>d.
                    if float_less (Fin d) (fst best)
                    then Inr (Fin d, 0, latitude p, longitude p, 0, Some 0)
                    else classify_vertex pts best))
             else classify_vertex pts best))"

text \<open>Lines 117 to 121: the body of the loop over \<^verbatim>\<open>enumerate(segment.points)\<close>.\<close>

definition vertex_body ::
  "'m geo_point \<Rightarrow> nat \<times> 'm geo_point \<Rightarrow> pyfloat \<times> nat \<Rightarrow> error + pyfloat \<times> nat" where
  "vertex_body wpt ipt best =
     (case ipt of (i, pt) \<Rightarrow> case best of (best_dist, best_idx) \<Rightarrow>
        bind_result (haversine (latitude wpt) (longitude wpt) (latitude pt) (longitude pt))
          (\<lambda>d. if float_less (Fin d) best_dist then Inr (Fin d, i)
                else Inr (best_dist, best_idx)))"

definition find_closest_vertex ::
  "'m geo_point \<Rightarrow> 'm track_segment \<Rightarrow> error + pyfloat \<times> nat" where
  "find_closest_vertex wpt segment =
     for_loop (vertex_body wpt) (enumerate 0 (points segment)) (PInf, 0)"

section \<open>Snap engine: \<^verbatim>\<open>process_add\<close> and \<^verbatim>\<open>process_move\<close>\<close>

text \<open>
  \<^verbatim>\<open>GPXTrackPoint(latitude=lat, longitude=lon)\<close>: every other attribute keeps the
  constructor's default, \<^verbatim>\<open>None\<close>.
\<close>

definition make_bare_point :: "real \<Rightarrow> real \<Rightarrow> 'm geo_point" where
  "make_bare_point lat lon =
     \<lparr>latitude = lat, longitude = lon, elevation = None, time = None, metadata = None\<rparr>"

text \<open>\<^verbatim>\<open>copy.deepcopy(pt)\<close>: a new point with the fields of \<open>pt\<close>.\<close>

definition duplicate_point :: "'m geo_point \<Rightarrow> 'm geo_point" where
  "duplicate_point pt = pt"

type_synonym 'm insertion = "nat \<times> 'm geo_point list"

text \<open>Lines 147 to 168: the body of the loop over the waypoints in add mode.\<close>

definition add_body ::
  "pyfloat \<Rightarrow> 'm track_segment \<Rightarrow> 'm geo_point \<Rightarrow> 'm insertion list \<Rightarrow> error + 'm insertion list" where
  "add_body maxdist segment wpt insertions =
     bind_result (find_closest_on_segment wpt segment) (\<lambda>r.
       case r of (min_dist, seg_idx, plat, plon, t, vertex_idx) \<Rightarrow>
         if float_greater min_dist maxdist then Inr insertions
         else
           (case vertex_idx of
              Some v \<Rightarrow>
                bind_result (getitem (points segment) v) (\<lambda>orig.
                  let dup = duplicate_point orig;
                      wpt_pt = make_bare_point (latitude wpt) (longitude wpt)
                  in Inr (insertions @ [(v + 1, [wpt_pt, dup])]))
            | None \<Rightarrow>
                (let proj = make_bare_point plat plon;
                     proj_dup = make_bare_point plat plon;
                     wpt_pt = make_bare_point (latitude wpt) (longitude wpt)
                 in Inr (insertions @ [(seg_idx + 1, [proj, wpt_pt, proj_dup])]))))"

text \<open>
  \<^verbatim>\<open>insertions.sort(key=lambda x: x[0], reverse=True)\<close>. Python's sort is stable, and
  with \<^verbatim>\<open>reverse=True\<close> it reverses the list, sorts it in ascending order and reverses
  the result, so that entries with equal keys keep their order.
\<close>

definition sort_reverse :: "'m insertion list \<Rightarrow> 'm insertion list" where
  "sort_reverse insertions = rev (sort_key fst (rev insertions))"

text \<open>
  \<^verbatim>\<open>xs.insert(idx, p)\<close> for \<open>idx \<ge> 0\<close>: an index beyond the end appends.
\<close>

definition list_insert :: "'a list \<Rightarrow> nat \<Rightarrow> 'a \<Rightarrow> 'a list" where
  "list_insert xs idx p = take idx xs @ p # drop idx xs"

text \<open>Lines 172 to 174.\<close>

definition apply_insertions :: "'a list \<Rightarrow> (nat \<times> 'a list) list \<Rightarrow> 'a list" where
  "apply_insertions pts insertions =
     fold (\<lambda>(idx, ps) acc. fold (\<lambda>p acc'. list_insert acc' idx p) (rev ps) acc) insertions pts"

text \<open>Lines 143 to 174: what add mode does to one segment.\<close>

definition process_add_segment ::
  "pyfloat \<Rightarrow> 'm geo_point list \<Rightarrow> 'm track_segment \<Rightarrow> error + 'm track_segment" where
  "process_add_segment maxdist wpts segment =
     bind_result (for_loop (add_body maxdist segment) wpts []) (\<lambda>insertions.
       Inr (segment\<lparr>points := apply_insertions (points segment) (sort_reverse insertions)\<rparr>))"

text \<open>
  The loops over the tracks and their segments mutate each segment in place; here they
  rebuild the lists, and the first exception ends the run.
\<close>

fun map_result :: "('a \<Rightarrow> error + 'b) \<Rightarrow> 'a list \<Rightarrow> error + 'b list" where
  "map_result f [] = Inr []"
| "map_result f (x # xs) =
     (case f x of Inl e \<Rightarrow> Inl e
      | Inr y \<Rightarrow> (case map_result f xs of Inl e \<Rightarrow> Inl e | Inr ys \<Rightarrow> Inr (y # ys)))"

definition process_segments ::
  "('m track_segment \<Rightarrow> error + 'm track_segment) \<Rightarrow> 'm gpx \<Rightarrow> error + 'm gpx" where
  "process_segments f gpx_data =
     bind_result
       (map_result (\<lambda>trk. bind_result (map_result f (segments trk))
                                (\<lambda>segs. Inr (trk\<lparr>segments := segs\<rparr>)))
          (tracks gpx_data))
       (\<lambda>trks. Inr (gpx_data\<lparr>tracks := trks\<rparr>))"

definition process_add :: "'m gpx \<Rightarrow> pyfloat \<Rightarrow> error + 'm gpx" where
  "process_add gpx_data maxdist =
     (if waypoints gpx_data = [] then Inr gpx_data
      else process_segments (process_add_segment maxdist (waypoints gpx_data)) gpx_data)"

text \<open>
  Lines 186 to 190: the body of the loop over the waypoints in move mode. Both
  assignments index \<^verbatim>\<open>segment.points[vidx]\<close>; the first raises when \<open>vidx\<close> is out of
  range.
\<close>

definition move_body :: "pyfloat \<Rightarrow> 'm geo_point \<Rightarrow> 'm track_segment \<Rightarrow> error + 'm track_segment" where
  "move_body maxdist wpt segment =
     bind_result (find_closest_vertex wpt segment) (\<lambda>r.
       case r of (min_dist, vidx) \<Rightarrow>
         if float_greater min_dist maxdist then Inr segment
         else
           bind_result (getitem (points segment) vidx) (\<lambda>p.
             Inr (segment\<lparr>points :=
                   (points segment)[vidx := p\<lparr>latitude := latitude wpt,
                                              longitude := longitude wpt\<rparr>]\<rparr>)))"

definition process_move_segment ::
  "pyfloat \<Rightarrow> 'm geo_point list \<Rightarrow> 'm track_segment \<Rightarrow> error + 'm track_segment" where
  "process_move_segment maxdist wpts segment = for_loop (move_body maxdist) wpts segment"

definition process_move :: "'m gpx \<Rightarrow> pyfloat \<Rightarrow> error + 'm gpx" where
  "process_move gpx_data maxdist =
     (if waypoints gpx_data = [] then Inr gpx_data
      else process_segments (process_move_segment maxdist (waypoints gpx_data)) gpx_data)"

section \<open>The result of add mode, described position by position\<close>

text \<open>
  The points that the insertions with index \<open>k\<close> contribute, the block of the last such
  insertion first.
\<close>

definition blocks_at :: "(nat \<times> 'a list) list \<Rightarrow> nat \<Rightarrow> 'a list" where
  "blocks_at insertions k = concat (map snd (rev (filter (\<lambda>x. fst x = k) insertions)))"

text \<open>
  The original points, each preceded by the blocks whose index is its position; \<open>k\<close> is
  the position of the first point of the list.
\<close>

fun interleave :: "(nat \<times> 'a list) list \<Rightarrow> nat \<Rightarrow> 'a list \<Rightarrow> 'a list" where
  "interleave insertions k [] = blocks_at insertions k"
| "interleave insertions k (p # ps) =
     blocks_at insertions k @ p # interleave insertions (Suc k) ps"

section \<open>Auxiliary definitions\<close>

text \<open>
  What one iteration of the edge loop offers as the new best match: the projection of
  the waypoint on the edge that starts at \<open>pts ! i\<close>, and its distance.
\<close>

definition edge_candidate :: "'m geo_point \<Rightarrow> 'm geo_point list \<Rightarrow> nat \<Rightarrow> best" where
  "edge_candidate wpt pts i =
     (case project_onto_segment (latitude wpt) (longitude wpt)
             (latitude (pts ! i)) (longitude (pts ! i))
             (latitude (pts ! (i + 1))) (longitude (pts ! (i + 1))) of
        (plat, plon, t) \<Rightarrow>
          (Fin (haversine_value (latitude wpt) (longitude wpt) plat plon), i, plat, plon, t))"

text \<open>The vertex index that lines 91 to 105 compute, where the list accesses are in range.\<close>

definition vertex_of :: "'m geo_point list \<Rightarrow> nat \<Rightarrow> real \<Rightarrow> real \<Rightarrow> real \<Rightarrow> nat option" where
  "vertex_of pts seg_idx plat plon t =
     (if t < 1 / 10 ^ 9 then Some seg_idx
      else if t > 1 - 1 / 10 ^ 9 then Some (seg_idx + 1)
      else if haversine_value plat plon (latitude (pts ! seg_idx)) (longitude (pts ! seg_idx))
              < TOLERANCE then Some seg_idx
      else if haversine_value plat plon (latitude (pts ! (seg_idx + 1)))
                (longitude (pts ! (seg_idx + 1))) < TOLERANCE then Some (seg_idx + 1)
      else None)"

text \<open>Two segments with as many points and the same non-positional attributes, point by point.\<close>

definition same_frame :: "'m track_segment \<Rightarrow> 'm track_segment \<Rightarrow> bool" where
  "same_frame seg seg' \<longleftrightarrow>
     length (points seg') = length (points seg) \<and>
     map elevation (points seg') = map elevation (points seg) \<and>
     map time (points seg') = map time (points seg) \<and>
     map metadata (points seg') = map metadata (points seg)"

text \<open>
  The insertion that the specification describes for one waypoint: none when the match
  is farther than \<open>maxdist\<close>; after a matched vertex, a bare point at the waypoint and a
  copy of the vertex; after the first endpoint of a matched edge, bare points at the
  projection, at the waypoint and at the projection again.
\<close>

definition insertion_for ::
  "pyfloat \<Rightarrow> 'm track_segment \<Rightarrow> 'm geo_point \<Rightarrow> 'm insertion list" where
  "insertion_for maxdist segment wpt =
     (case find_closest_on_segment wpt segment of
        Inl e \<Rightarrow> []
      | Inr (min_dist, seg_idx, plat, plon, t, vertex_idx) \<Rightarrow>
          if float_greater min_dist maxdist then []
          else
            (case vertex_idx of
               Some v \<Rightarrow>
                 [(v + 1, [make_bare_point (latitude wpt) (longitude wpt), points segment ! v])]
             | None \<Rightarrow>
                 [(seg_idx + 1, [make_bare_point plat plon,
                                 make_bare_point (latitude wpt) (longitude wpt),
                                 make_bare_point plat plon])]))"

section \<open>The scenario of the specification\<close>

text \<open>
  The segment of the specification's scenarios, one degree of longitude along the
  equator from (0, 0) to (0, 1), here with elevation, time and metadata on its points,
  and a named waypoint at given coordinates.
\<close>

abbreviation start_point :: "string geo_point" where
  "start_point \<equiv>
     \<lparr>latitude = 0, longitude = 0, elevation = Some 120, time = Some 0, metadata = Some ''start''\<rparr>"

abbreviation end_point :: "string geo_point" where
  "end_point \<equiv>
     \<lparr>latitude = 0, longitude = 1, elevation = Some 130, time = Some 60, metadata = None\<rparr>"

abbreviation equator_segment :: "string track_segment" where
  "equator_segment \<equiv> \<lparr>points = [start_point, end_point]\<rparr>"

abbreviation waypoint_at :: "real \<Rightarrow> real \<Rightarrow> string geo_point" where
  "waypoint_at lat lon \<equiv>
     \<lparr>latitude = lat, longitude = lon, elevation = None, time = None, metadata = Some ''cairn''\<rparr>"

section \<open>Properties of the distance metric\<close>

text \<open>
  In exact arithmetic the value \<^verbatim>\<open>a\<close> of line 18 lies between 0 and 1, whatever the
  coordinates: \<open>cos p * cos q\<close> is half of \<open>cos (q - p) + cos (q + p)\<close>. So the
  \<open>haversine\<close> of this theory always returns, with the value \<open>haversine_value\<close>. What
  rounding does to \<^verbatim>\<open>a\<close> and to the distance in IEEE doubles is not expressed here.
\<close>

lemma cos_prod_bounds:
  fixes p q :: real
  shows "- (sin ((q - p) / 2))\<^sup>2 \<le> cos p * cos q" "cos p * cos q \<le> 1 - (sin ((q - p) / 2))\<^sup>2"
proof -
  have prod: "2 * (cos p * cos q) = cos (q - p) + cos (q + p)"
    by (simp add: cos_add cos_diff)
  have dbl: "cos (q - p) = 1 - 2 * (sin ((q - p) / 2))\<^sup>2"
  proof -
    define h where "h = (q - p) / 2"
    have "q - p = 2 * h" by (simp add: h_def)
    then have "cos (q - p) = cos (2 * h)" by (simp only:)
    also have "\<dots> = 1 - 2 * (sin h)\<^sup>2" by (rule cos_double_sin)
    finally show ?thesis unfolding h_def .
  qed
  have "- 1 \<le> cos (q + p)" "cos (q + p) \<le> 1" by simp_all
  with prod dbl show "- (sin ((q - p) / 2))\<^sup>2 \<le> cos p * cos q"
    "cos p * cos q \<le> 1 - (sin ((q - p) / 2))\<^sup>2" by linarith+
qed

lemma haversine_a_range: "0 \<le> haversine_a lat1 lon1 lat2 lon2" "haversine_a lat1 lon1 lat2 lon2 \<le> 1"
proof -
  define x where "x = (sin ((radians lat2 - radians lat1) / 2))\<^sup>2"
  define y where "y = (sin ((radians lon2 - radians lon1) / 2))\<^sup>2"
  define c where "c = cos (radians lat1) * cos (radians lat2)"
  have a: "haversine_a lat1 lon1 lat2 lon2 = x + c * y"
    by (simp add: haversine_a_def x_def y_def c_def Let_def)
  have x: "0 \<le> x" "x \<le> 1" and y: "0 \<le> y" "y \<le> 1"
    by (simp_all add: x_def y_def abs_square_le_1)
  have c: "- x \<le> c" "c \<le> 1 - x"
    unfolding c_def x_def by (rule cos_prod_bounds)+
  have "(- x) * y \<le> c * y" using c(1) y(1) by (rule mult_right_mono)
  moreover have "x * y \<le> x * 1" using y(2) x(1) by (rule mult_left_mono)
  ultimately show "0 \<le> haversine_a lat1 lon1 lat2 lon2" using a by simp
  have "c * y \<le> (1 - x) * y" using c(2) y(1) by (rule mult_right_mono)
  moreover have "(1 - x) * y \<le> (1 - x) * 1" using y(2) x(2) by (intro mult_left_mono) simp_all
  ultimately show "haversine_a lat1 lon1 lat2 lon2 \<le> 1" using a by simp
qed

lemma math_sqrt_a: "math_sqrt (haversine_a lat1 lon1 lat2 lon2) = Inr (sqrt (haversine_a lat1 lon1 lat2 lon2))"
  using haversine_a_range(1) [of lat1 lon1 lat2 lon2] by (simp add: math_sqrt_def)

lemma sqrt_a_range: "0 \<le> sqrt (haversine_a lat1 lon1 lat2 lon2)" "sqrt (haversine_a lat1 lon1 lat2 lon2) \<le> 1"
  using haversine_a_range [of lat1 lon1 lat2 lon2] by simp_all

lemma haversine_eq: "haversine lat1 lon1 lat2 lon2 = Inr (haversine_value lat1 lon1 lat2 lon2)"
proof -
  have "\<not> (sqrt (haversine_a lat1 lon1 lat2 lon2) < - 1 \<or> 1 < sqrt (haversine_a lat1 lon1 lat2 lon2))"
    using sqrt_a_range [of lat1 lon1 lat2 lon2] by linarith
  then show ?thesis
    by (simp add: haversine_def haversine_return_def bind_result_def math_sqrt_a math_asin_def
        haversine_value_def)
qed

lemma haversine_value_equator:
  assumes "\<bar>lon2 - lon1\<bar> \<le> 180"
  shows "haversine_value 0 lon1 0 lon2 = EARTH_RADIUS * pi * \<bar>lon2 - lon1\<bar> / 180"
proof -
  define h where "h = (radians lon2 - radians lon1) / 2"
  have h: "h = (lon2 - lon1) * pi / 360" by (simp add: h_def radians_def field_simps)
  have "\<bar>h\<bar> = \<bar>lon2 - lon1\<bar> * pi / 360" by (simp add: h abs_mult)
  also have "\<dots> \<le> 180 * pi / 360" using assms by (intro divide_right_mono mult_right_mono) simp_all
  finally have hb: "\<bar>h\<bar> \<le> pi / 2" by simp
  have a: "haversine_a 0 lon1 0 lon2 = (sin h)\<^sup>2"
    by (simp add: haversine_a_def Let_def h_def radians_def)
  have "arcsin (sqrt ((sin h)\<^sup>2)) = \<bar>h\<bar>"
  proof -
    have "sqrt ((sin h)\<^sup>2) = \<bar>sin h\<bar>" by simp
    also have "\<dots> = sin \<bar>h\<bar>"
    proof (cases "0 \<le> h")
      case True
      with hb have "0 \<le> sin h" by (intro sin_ge_zero) (use pi_ge_zero in linarith)+
      with True show ?thesis by simp
    next
      case False
      with hb have "0 \<le> sin (- h)" by (intro sin_ge_zero) (use pi_ge_zero in linarith)+
      with False show ?thesis by simp
    qed
    finally have "arcsin (sqrt ((sin h)\<^sup>2)) = arcsin (sin \<bar>h\<bar>)" by simp
    also have "\<dots> = \<bar>h\<bar>" using hb by (intro arcsin_sin) linarith+
    finally show ?thesis .
  qed
  then have "haversine_value 0 lon1 0 lon2 = 2 * EARTH_RADIUS * \<bar>h\<bar>"
    by (simp add: haversine_value_def a)
  also have "\<dots> = EARTH_RADIUS * pi * \<bar>lon2 - lon1\<bar> / 180"
    by (simp add: h abs_mult)
  finally show ?thesis .
qed

lemma haversine_value_meridian:
  assumes "\<bar>lat2 - lat1\<bar> \<le> 180"
  shows "haversine_value lat1 lon lat2 lon = EARTH_RADIUS * pi * \<bar>lat2 - lat1\<bar> / 180"
proof -
  have a: "haversine_a lat1 lon lat2 lon = haversine_a 0 lat1 0 lat2"
    by (simp add: haversine_a_def Let_def radians_def)
  show ?thesis
    using haversine_value_equator [OF assms] by (simp add: haversine_value_def a)
qed

lemma metres_per_degree: "70000 < EARTH_RADIUS * pi / 180" "EARTH_RADIUS * pi / 180 < 150000"
  using pi_ge_two pi_less_4 by (simp_all add: EARTH_RADIUS_def)

section \<open>Properties of the segment projector\<close>

text \<open>
  C5. For every point \<open>w\<close> and all endpoints \<open>a\<close>, \<open>b\<close> the projector returns a parameter
  \<open>t\<close> between 0 and 1 and the point that interpolates the unscaled coordinates of \<open>a\<close>
  and \<open>b\<close> linearly at \<open>t\<close>; when \<open>a\<close> and \<open>b\<close> coincide it returns the coordinates of \<open>a\<close>
  and \<open>t = 0\<close>.
\<close>

theorem project_onto_segment_interpolates:
  "(case project_onto_segment wlat wlon alat alon blat blon of
      (plat, plon, t) \<Rightarrow>
        0 \<le> t \<and> t \<le> 1 \<and>
        plat = alat + t * (blat - alat) \<and> plon = alon + t * (blon - alon)) \<and>
   project_onto_segment wlat wlon alat alon alat alon = (alat, alon, 0)"
  by (simp add: project_onto_segment_def Let_def)

section \<open>Properties of the track matcher\<close>

lemma bind_result_Inr [simp]: "bind_result (Inr x) f = f x"
  by (simp add: bind_result_def)

lemma bind_result_Inl [simp]: "bind_result (Inl e) f = Inl e"
  by (simp add: bind_result_def)

lemma getitem_in_range: "i < length xs \<Longrightarrow> getitem xs i = Inr (xs ! i)"
  by (simp add: getitem_def)

lemma edge_body_eq:
  assumes "i + 1 < length pts"
  shows "edge_body wpt pts i best =
           Inr (if float_less (fst (edge_candidate wpt pts i)) (fst best)
                then edge_candidate wpt pts i else best)"
proof -
  have "i < length pts" using assms by simp
  with assms show ?thesis
    by (cases best)
      (simp add: edge_body_def edge_candidate_def getitem_in_range haversine_eq
        split: prod.splits)
qed

lemma project_onto_segment_t:
  "project_onto_segment wlat wlon alat alon blat blon = (plat, plon, t) \<Longrightarrow> 0 \<le> t \<and> t \<le> 1"
  by (auto simp: project_onto_segment_def Let_def split: if_splits)

lemma edge_candidate_fields:
  "\<exists>d plat plon t. edge_candidate wpt pts i = (Fin d, i, plat, plon, t) \<and> 0 \<le> t \<and> t \<le> 1 \<and>
     (plat, plon, t) = project_onto_segment (latitude wpt) (longitude wpt)
             (latitude (pts ! i)) (longitude (pts ! i))
             (latitude (pts ! (i + 1))) (longitude (pts ! (i + 1))) \<and>
     d = haversine_value (latitude wpt) (longitude wpt) plat plon"
  by (auto simp: edge_candidate_def split: prod.splits dest: project_onto_segment_t)

lemma edge_loop:
  assumes "\<forall>i \<in> set is. i + 1 < length pts"
  shows "\<exists>best'. for_loop (edge_body wpt pts) is best = Inr best' \<and>
           (best' = best \<or> (\<exists>i \<in> set is. best' = edge_candidate wpt pts i)) \<and>
           (is \<noteq> [] \<longrightarrow> fst best' \<noteq> PInf)"
  using assms
proof (induction "is" arbitrary: best)
  case Nil
  then show ?case by simp
next
  case (Cons i "is")
  let ?b = "if float_less (fst (edge_candidate wpt pts i)) (fst best)
            then edge_candidate wpt pts i else best"
  from Cons.prems have step: "edge_body wpt pts i best = Inr ?b"
    by (simp add: edge_body_eq)
  from Cons.prems have "\<forall>j \<in> set is. j + 1 < length pts" by simp
  from Cons.IH [OF this, of ?b] obtain best' where
    run: "for_loop (edge_body wpt pts) is ?b = Inr best'" and
    origin: "best' = ?b \<or> (\<exists>j \<in> set is. best' = edge_candidate wpt pts j)" and
    fin: "is \<noteq> [] \<longrightarrow> fst best' \<noteq> PInf"
    by blast
  obtain d plat plon t where c: "edge_candidate wpt pts i = (Fin d, i, plat, plon, t)"
    using edge_candidate_fields [of wpt pts i] by blast
  have b_fin: "fst ?b \<noteq> PInf"
    using c by (cases "fst best") auto
  have "fst best' \<noteq> PInf"
  proof (cases "is = []")
    case True
    with run b_fin show ?thesis by simp
  next
    case False
    with fin show ?thesis by simp
  qed
  moreover have "best' = best \<or> (\<exists>j \<in> set (i # is). best' = edge_candidate wpt pts j)"
    using origin by (auto split: if_splits)
  moreover have "for_loop (edge_body wpt pts) (i # is) best = Inr best'"
    using step run by simp
  ultimately show ?case by blast
qed

lemma classify_vertex_eq:
  assumes "seg_idx + 1 < length pts \<or> t < 1 / 10 ^ 9"
  shows "classify_vertex pts (d, seg_idx, plat, plon, t) =
           Inr (d, seg_idx, plat, plon, t, vertex_of pts seg_idx plat plon t)"
proof (cases "t < 1 / 10 ^ 9")
  case True
  then show ?thesis by (simp add: classify_vertex_def vertex_of_def)
next
  case False
  with assms have "seg_idx + 1 < length pts" "seg_idx < length pts" by simp_all
  then show ?thesis
    by (simp add: classify_vertex_def vertex_of_def getitem_in_range haversine_eq)
qed

lemma find_closest_on_segment_empty:
  "points segment = [] \<Longrightarrow> find_closest_on_segment wpt segment = Inr (PInf, 0, 0, 0, 0, None)"
  by (simp add: find_closest_on_segment_def)

lemma find_closest_on_segment_single:
  assumes "points segment = [p]"
  shows "find_closest_on_segment wpt segment =
     Inr (Fin (haversine_value (latitude wpt) (longitude wpt) (latitude p) (longitude p)),
          0, latitude p, longitude p, 0, Some 0)"
  using assms by (simp add: find_closest_on_segment_def getitem_in_range haversine_eq)

lemma find_closest_on_segment_edges:
  assumes "2 \<le> length (points segment)"
  shows "\<exists>i d plat plon t. i + 1 < length (points segment) \<and>
     edge_candidate wpt (points segment) i = (Fin d, i, plat, plon, t) \<and>
     find_closest_on_segment wpt segment =
       Inr (Fin d, i, plat, plon, t, vertex_of (points segment) i plat plon t)"
proof -
  let ?pts = "points segment"
  let ?is = "[0 ..< length ?pts - 1]"
  have rng: "\<forall>i \<in> set ?is. i + 1 < length ?pts" by auto
  have ne: "?is \<noteq> []" using assms by simp
  from edge_loop [OF rng, of wpt "(PInf, 0, 0, 0, 0)"] ne obtain best' where
    run: "for_loop (edge_body wpt ?pts) ?is (PInf, 0, 0, 0, 0) = Inr best'" and
    origin: "best' = (PInf, 0, 0, 0, 0) \<or> (\<exists>i \<in> set ?is. best' = edge_candidate wpt ?pts i)" and
    fin: "fst best' \<noteq> PInf"
    by blast
  from origin fin obtain i where i: "i \<in> set ?is" "best' = edge_candidate wpt ?pts i"
    by auto
  obtain d plat plon t where c: "edge_candidate wpt ?pts i = (Fin d, i, plat, plon, t)"
    using edge_candidate_fields [of wpt ?pts i] by blast
  from i(1) have il: "i + 1 < length ?pts" by auto
  have "find_closest_on_segment wpt segment = classify_vertex ?pts best'"
  proof -
    have "?pts \<noteq> []" "length ?pts \<noteq> 1" using assms by auto
    with run show ?thesis by (simp add: find_closest_on_segment_def Let_def)
  qed
  also have "\<dots> = Inr (Fin d, i, plat, plon, t, vertex_of ?pts i plat plon t)"
    using il by (simp add: i(2) c classify_vertex_eq)
  finally show ?thesis using il c by blast
qed

lemma vertex_body_eq:
  "vertex_body wpt (i, p) (bd, bi) =
     Inr (if float_less (Fin (haversine_value (latitude wpt) (longitude wpt) (latitude p) (longitude p))) bd
          then (Fin (haversine_value (latitude wpt) (longitude wpt) (latitude p) (longitude p)), i)
          else (bd, bi))"
  by (simp add: vertex_body_def haversine_eq)

lemma vertex_loop:
  "\<exists>bd' bi'. for_loop (vertex_body wpt) (enumerate k pts) (bd, bi) = Inr (bd', bi') \<and>
     ((bd' = bd \<and> bi' = bi) \<or> (\<exists>d. bd' = Fin d \<and> k \<le> bi' \<and> bi' < k + length pts)) \<and>
     (pts \<noteq> [] \<longrightarrow> bd' \<noteq> PInf)"
proof (induction pts arbitrary: k bd bi)
  case Nil
  then show ?case by simp
next
  case (Cons p ps)
  let ?d = "haversine_value (latitude wpt) (longitude wpt) (latitude p) (longitude p)"
  let ?b = "if float_less (Fin ?d) bd then (Fin ?d, k) else (bd, bi)"
  obtain bd1 bi1 where b1: "?b = (bd1, bi1)" by (cases ?b) blast
  have fin1: "bd1 \<noteq> PInf" using b1 by (cases bd) (auto split: if_splits)
  have org1: "(bd1 = bd \<and> bi1 = bi) \<or> (\<exists>d. bd1 = Fin d \<and> bi1 = k)"
    using b1 by (auto split: if_splits)
  from Cons.IH [of "Suc k" bd1 bi1] obtain bd' bi' where
    run: "for_loop (vertex_body wpt) (enumerate (Suc k) ps) (bd1, bi1) = Inr (bd', bi')" and
    org: "(bd' = bd1 \<and> bi' = bi1) \<or> (\<exists>d. bd' = Fin d \<and> Suc k \<le> bi' \<and> bi' < Suc k + length ps)" and
    fin: "ps \<noteq> [] \<longrightarrow> bd' \<noteq> PInf"
    by blast
  have "for_loop (vertex_body wpt) (enumerate k (p # ps)) (bd, bi) = Inr (bd', bi')"
    using run b1 by (simp add: vertex_body_eq)
  moreover have "bd' \<noteq> PInf" using org fin fin1 by auto
  moreover have "(bd' = bd \<and> bi' = bi) \<or> (\<exists>d. bd' = Fin d \<and> k \<le> bi' \<and> bi' < k + length (p # ps))"
    using org org1 by auto
  ultimately show ?case by blast
qed

lemma find_closest_vertex_empty:
  "points segment = [] \<Longrightarrow> find_closest_vertex wpt segment = Inr (PInf, 0)"
  by (simp add: find_closest_vertex_def)

lemma find_closest_vertex_nonempty:
  assumes "points segment \<noteq> []"
  shows "\<exists>d i. find_closest_vertex wpt segment = Inr (Fin d, i) \<and> i < length (points segment)"
proof -
  from vertex_loop [of wpt 0 "points segment" PInf 0] assms obtain bd' bi' where
    "for_loop (vertex_body wpt) (enumerate 0 (points segment)) (PInf, 0) = Inr (bd', bi')"
    "(bd' = PInf \<and> bi' = 0) \<or> (\<exists>d. bd' = Fin d \<and> bi' < length (points segment))"
    "bd' \<noteq> PInf"
    by auto
  then show ?thesis by (auto simp: find_closest_vertex_def)
qed

lemma vertex_of_cases:
  "vertex_of pts i plat plon t = Some k \<Longrightarrow> k = i \<or> k = i + 1"
  by (auto simp: vertex_of_def split: if_splits)

lemma find_closest_on_segment_nonempty:
  assumes "points segment \<noteq> []"
  shows "\<exists>d i plat plon t v. find_closest_on_segment wpt segment = Inr (Fin d, i, plat, plon, t, v) \<and>
     (case v of Some k \<Rightarrow> k < length (points segment) | None \<Rightarrow> i + 1 < length (points segment))"
proof (cases "length (points segment) = 1")
  case True
  then obtain p where "points segment = [p]" by (cases "points segment") auto
  from find_closest_on_segment_single [OF this, of wpt] True show ?thesis by simp
next
  case False
  moreover have "length (points segment) \<noteq> 0" using assms by simp
  ultimately have "2 \<le> length (points segment)" by arith
  from find_closest_on_segment_edges [OF this, of wpt] obtain i d plat plon t where
    il: "i + 1 < length (points segment)" and
    c: "edge_candidate wpt (points segment) i = (Fin d, i, plat, plon, t)" and
    r: "find_closest_on_segment wpt segment =
       Inr (Fin d, i, plat, plon, t, vertex_of (points segment) i plat plon t)"
    by blast
  have "case vertex_of (points segment) i plat plon t of
          Some k \<Rightarrow> k < length (points segment) | None \<Rightarrow> i + 1 < length (points segment)"
    using il by (auto split: option.splits dest: vertex_of_cases)
  with r show ?thesis by blast
qed

lemma find_closest_on_segment_two:
  assumes "points segment = [a, b]"
  shows "find_closest_on_segment wpt segment =
     (case project_onto_segment (latitude wpt) (longitude wpt)
             (latitude a) (longitude a) (latitude b) (longitude b) of
        (plat, plon, t) \<Rightarrow>
          Inr (Fin (haversine_value (latitude wpt) (longitude wpt) plat plon), 0, plat, plon, t,
               vertex_of [a, b] 0 plat plon t))"
proof -
  obtain plat plon t where p: "project_onto_segment (latitude wpt) (longitude wpt)
             (latitude a) (longitude a) (latitude b) (longitude b) = (plat, plon, t)"
    by (metis prod_cases3)
  have c: "edge_candidate wpt [a, b] 0 =
    (Fin (haversine_value (latitude wpt) (longitude wpt) plat plon), 0, plat, plon, t)"
    by (simp add: edge_candidate_def p)
  have "for_loop (edge_body wpt [a, b]) [0] (PInf, 0, 0, 0, 0) =
    Inr (Fin (haversine_value (latitude wpt) (longitude wpt) plat plon), 0, plat, plon, t)"
    by (simp add: edge_body_eq c)
  then show ?thesis
    using assms by (simp add: find_closest_on_segment_def p classify_vertex_eq)
qed

lemma find_closest_vertex_two:
  assumes "points segment = [a, b]"
  shows "find_closest_vertex wpt segment =
     Inr (if haversine_value (latitude wpt) (longitude wpt) (latitude b) (longitude b)
             < haversine_value (latitude wpt) (longitude wpt) (latitude a) (longitude a)
          then (Fin (haversine_value (latitude wpt) (longitude wpt) (latitude b) (longitude b)), 1)
          else (Fin (haversine_value (latitude wpt) (longitude wpt) (latitude a) (longitude a)), 0))"
  using assms by (simp add: find_closest_vertex_def vertex_body_eq)

text \<open>
  C4. On a segment with at least one point the match is reported with a vertex exactly
  in these cases, tested in this order: \<open>t\<close> within \<open>10\<^sup>-\<^sup>9\<close> of 0, the start vertex of
  the winning edge; \<open>t\<close> within \<open>10\<^sup>-\<^sup>9\<close> of 1, its end vertex; the projected point less
  than 0.05 metres from the start vertex, then from the end vertex. Otherwise no vertex
  is reported. In particular \<open>t = 0\<close> and \<open>t = 1\<close> always give a vertex.
\<close>

theorem vertex_classification:
  assumes "points segment \<noteq> []"
  shows "\<exists>min_dist seg_idx plat plon t vertex_idx.
     find_closest_on_segment wpt segment =
       Inr (min_dist, seg_idx, plat, plon, t, vertex_idx) \<and>
     0 \<le> t \<and> t \<le> 1 \<and>
     (t = 0 \<longrightarrow> vertex_idx = Some seg_idx) \<and>
     (t = 1 \<longrightarrow> vertex_idx = Some (seg_idx + 1)) \<and>
     (if \<bar>t - 0\<bar> < 1 / 10 ^ 9 then vertex_idx = Some seg_idx
      else if \<bar>t - 1\<bar> < 1 / 10 ^ 9 then vertex_idx = Some (seg_idx + 1)
      else seg_idx + 1 < length (points segment) \<and>
        vertex_idx =
          (if haversine_value plat plon (latitude (points segment ! seg_idx))
                (longitude (points segment ! seg_idx)) < 0.05
           then Some seg_idx
           else if haversine_value plat plon (latitude (points segment ! (seg_idx + 1)))
                     (longitude (points segment ! (seg_idx + 1))) < 0.05
           then Some (seg_idx + 1)
           else None))"
proof (cases "length (points segment) = 1")
  case True
  then obtain p where "points segment = [p]" by (cases "points segment") auto
  from find_closest_on_segment_single [OF this, of wpt] show ?thesis by simp
next
  case False
  moreover have "length (points segment) \<noteq> 0" using assms by simp
  ultimately have "2 \<le> length (points segment)" by arith
  from find_closest_on_segment_edges [OF this, of wpt] obtain i d plat plon t where
    il: "i + 1 < length (points segment)" and
    c: "edge_candidate wpt (points segment) i = (Fin d, i, plat, plon, t)" and
    r: "find_closest_on_segment wpt segment =
       Inr (Fin d, i, plat, plon, t, vertex_of (points segment) i plat plon t)"
    by blast
  have t: "0 \<le> t" "t \<le> 1"
    using edge_candidate_fields [of wpt "points segment" i] c by auto
  have "(t = 0 \<longrightarrow> vertex_of (points segment) i plat plon t = Some i) \<and>
     (t = 1 \<longrightarrow> vertex_of (points segment) i plat plon t = Some (i + 1)) \<and>
     (if \<bar>t - 0\<bar> < 1 / 10 ^ 9 then vertex_of (points segment) i plat plon t = Some i
      else if \<bar>t - 1\<bar> < 1 / 10 ^ 9 then vertex_of (points segment) i plat plon t = Some (i + 1)
      else i + 1 < length (points segment) \<and>
        vertex_of (points segment) i plat plon t =
          (if haversine_value plat plon (latitude (points segment ! i))
                (longitude (points segment ! i)) < 0.05
           then Some i
           else if haversine_value plat plon (latitude (points segment ! (i + 1)))
                     (longitude (points segment ! (i + 1))) < 0.05
           then Some (i + 1)
           else None))"
    using t il by (auto simp: vertex_of_def TOLERANCE_def)
  with r t show ?thesis by blast
qed

text \<open>
  C9. On a segment without points the matcher returns an infinite distance; on a
  segment with one point it returns the distance to that point and the point's
  coordinates, with \<open>t = 0\<close> and vertex 0, without going through an edge.
\<close>

theorem find_closest_on_segment_degenerate:
  "find_closest_on_segment wpt \<lparr>points = []\<rparr> = Inr (PInf, 0, 0, 0, 0, None) \<and>
   haversine (latitude wpt) (longitude wpt) (latitude p) (longitude p) =
     Inr (haversine_value (latitude wpt) (longitude wpt) (latitude p) (longitude p)) \<and>
   find_closest_on_segment wpt \<lparr>points = [p]\<rparr> =
     Inr (Fin (haversine_value (latitude wpt) (longitude wpt) (latitude p) (longitude p)),
          0, latitude p, longitude p, 0, Some 0)"
  by (simp add: find_closest_on_segment_empty find_closest_on_segment_single haversine_eq)

section \<open>Properties of move mode\<close>

lemma map_result_total:
  assumes "\<And>x. x \<in> set xs \<Longrightarrow> \<exists>y. f x = Inr y \<and> P x y"
  shows "\<exists>ys. map_result f xs = Inr ys \<and> list_all2 P xs ys"
  using assms
proof (induction xs)
  case Nil
  then show ?case by simp
next
  case (Cons x xs)
  from Cons.prems [of x] obtain y where y: "f x = Inr y" "P x y" by auto
  from Cons.IH Cons.prems obtain ys where ys: "map_result f xs = Inr ys" "list_all2 P xs ys"
    by (metis list.set_intros(2))
  from y ys show ?case by simp
qed

lemma process_segments_total:
  assumes "\<And>seg. \<exists>seg'. f seg = Inr seg' \<and> P seg seg'"
  shows "\<exists>gpx'. process_segments f gpx_data = Inr gpx' \<and>
           waypoints gpx' = waypoints gpx_data \<and>
           list_all2 (\<lambda>trk trk'. list_all2 P (segments trk) (segments trk'))
             (tracks gpx_data) (tracks gpx')"
proof -
  let ?g = "\<lambda>trk. bind_result (map_result f (segments trk)) (\<lambda>segs. Inr (trk\<lparr>segments := segs\<rparr>))"
  let ?Q = "\<lambda>trk trk'. list_all2 P (segments trk) (segments trk')"
  have "\<exists>trk'. ?g trk = Inr trk' \<and> ?Q trk trk'" for trk
  proof -
    from map_result_total [of "segments trk" f P] assms obtain segs where
      "map_result f (segments trk) = Inr segs" "list_all2 P (segments trk) segs"
      by blast
    then show ?thesis by simp
  qed
  then have "\<exists>trks. map_result ?g (tracks gpx_data) = Inr trks \<and> list_all2 ?Q (tracks gpx_data) trks"
    by (intro map_result_total) blast
  then obtain trks where "map_result ?g (tracks gpx_data) = Inr trks"
    "list_all2 ?Q (tracks gpx_data) trks" by blast
  then show ?thesis by (simp add: process_segments_def)
qed

lemma move_body_skip:
  assumes "find_closest_vertex wpt segment = Inr (min_dist, i)" "float_greater min_dist maxdist"
  shows "move_body maxdist wpt segment = Inr segment"
  using assms by (simp add: move_body_def)

lemma move_body_hit:
  assumes "find_closest_vertex wpt segment = Inr (min_dist, i)" "\<not> float_greater min_dist maxdist"
    "i < length (points segment)"
  shows "move_body maxdist wpt segment =
     Inr (segment\<lparr>points := (points segment)[i := (points segment ! i)
       \<lparr>latitude := latitude wpt, longitude := longitude wpt\<rparr>]\<rparr>)"
  using assms by (simp add: move_body_def getitem_in_range)

lemma same_frame_refl: "same_frame seg seg"
  by (simp add: same_frame_def)

lemma same_frame_trans: "same_frame a b \<Longrightarrow> same_frame b c \<Longrightarrow> same_frame a c"
  by (simp add: same_frame_def)

lemma map_update_same: "(map f xs)[i := f (xs ! i)] = map f xs"
proof (cases "i < length xs")
  case True
  then show ?thesis by (simp add: list_update_same_conv)
next
  case False
  then have "length (map f xs) \<le> i" by simp
  then show ?thesis by (rule list_update_beyond)
qed

lemma same_frame_update:
  "same_frame seg (seg\<lparr>points := (points seg)[i := (points seg ! i)\<lparr>latitude := x, longitude := y\<rparr>]\<rparr>)"
  by (simp add: same_frame_def map_update map_update_same)

lemma move_body_total:
  assumes "points segment \<noteq> [] \<or> maxdist \<noteq> PInf"
  shows "\<exists>seg'. move_body maxdist wpt segment = Inr seg' \<and> same_frame segment seg'"
proof (cases "points segment = []")
  case True
  with assms have "float_greater PInf maxdist" by (cases maxdist) (simp_all add: float_greater_def)
  with True show ?thesis
    using move_body_skip [of wpt segment PInf 0 maxdist]
    by (simp add: find_closest_vertex_empty same_frame_refl)
next
  case False
  from find_closest_vertex_nonempty [OF this, of wpt] obtain d i where
    r: "find_closest_vertex wpt segment = Inr (Fin d, i)" and i: "i < length (points segment)"
    by blast
  show ?thesis
  proof (cases "float_greater (Fin d) maxdist")
    case True
    with r show ?thesis by (simp add: move_body_skip same_frame_refl)
  next
    case False
    with r i show ?thesis by (simp add: move_body_hit same_frame_update)
  qed
qed

lemma process_move_segment_total:
  assumes "points segment \<noteq> [] \<or> maxdist \<noteq> PInf"
  shows "\<exists>seg'. process_move_segment maxdist wpts segment = Inr seg' \<and> same_frame segment seg'"
  using assms unfolding process_move_segment_def
proof (induction wpts arbitrary: segment)
  case Nil
  then show ?case by (simp add: same_frame_refl)
next
  case (Cons w ws)
  from move_body_total [OF Cons.prems, of w] obtain s1 where
    s1: "move_body maxdist w segment = Inr s1" "same_frame segment s1" by blast
  from s1(2) Cons.prems have "points s1 \<noteq> [] \<or> maxdist \<noteq> PInf"
    by (auto simp: same_frame_def)
  from Cons.IH [OF this] obtain seg' where
    "for_loop (move_body maxdist) ws s1 = Inr seg'" "same_frame s1 seg'" by blast
  with s1 show ?case by (auto intro: same_frame_trans)
qed

text \<open>
  The one run of move mode that raises: a segment without points, an infinite
  \<open>maxdist\<close> and at least one waypoint. The infinite distance is not greater than
  \<open>maxdist\<close>, and line 189 indexes the empty list.
\<close>

lemma process_move_segment_empty_inf:
  "process_move_segment PInf (w # ws) \<lparr>points = []\<rparr> = Inl IndexError"
  by (simp add: process_move_segment_def move_body_def find_closest_vertex_def
      float_greater_def getitem_def)

text \<open>
  C3. A waypoint whose closest vertex is within \<open>maxdist\<close> overwrites the latitude and the
  longitude of that vertex and nothing else: all other points, and the other fields of
  the vertex, are as before. After a whole run over any list of waypoints the segment
  has as many points as before, with the same elevation, time and metadata at every
  position. (A run raises only on a segment without points with an infinite
  \<open>maxdist\<close>.)
\<close>

theorem move_mode_frame:
  "(find_closest_vertex wpt segment = Inr (Fin d, i) \<and> \<not> float_greater (Fin d) maxdist \<longrightarrow>
      i < length (points segment) \<and>
      move_body maxdist wpt segment =
        Inr (segment\<lparr>points := (points segment)[i := (points segment ! i)
               \<lparr>latitude := latitude wpt, longitude := longitude wpt\<rparr>]\<rparr>)) \<and>
   (points segment \<noteq> [] \<or> maxdist \<noteq> PInf \<longrightarrow>
      (\<exists>seg'. process_move_segment maxdist wpts segment = Inr seg' \<and>
         length (points seg') = length (points segment) \<and>
         map elevation (points seg') = map elevation (points segment) \<and>
         map time (points seg') = map time (points segment) \<and>
         map metadata (points seg') = map metadata (points segment)))"
proof (intro conjI impI)
  assume a: "find_closest_vertex wpt segment = Inr (Fin d, i) \<and> \<not> float_greater (Fin d) maxdist"
  have ne: "points segment \<noteq> []"
  proof
    assume "points segment = []"
    then have "find_closest_vertex wpt segment = Inr (PInf, 0)" by (rule find_closest_vertex_empty)
    with a show False by simp
  qed
  from find_closest_vertex_nonempty [OF ne, of wpt] a
  show i: "i < length (points segment)" by auto
  from a i show "move_body maxdist wpt segment =
        Inr (segment\<lparr>points := (points segment)[i := (points segment ! i)
               \<lparr>latitude := latitude wpt, longitude := longitude wpt\<rparr>]\<rparr>)"
    by (simp add: move_body_hit)
next
  assume "points segment \<noteq> [] \<or> maxdist \<noteq> PInf"
  from process_move_segment_total [OF this, of wpts]
  show "\<exists>seg'. process_move_segment maxdist wpts segment = Inr seg' \<and>
         length (points seg') = length (points segment) \<and>
         map elevation (points seg') = map elevation (points segment) \<and>
         map time (points seg') = map time (points segment) \<and>
         map metadata (points seg') = map metadata (points segment)"
    by (auto simp: same_frame_def)
qed

text \<open>
  C10. On a segment without points the vertex search returns an infinite distance and
  index 0. For a finite \<open>maxdist\<close> every waypoint is then skipped: a run leaves the empty
  segment empty, and move mode as a whole returns without an exception, every segment
  keeping its number of points.
\<close>

theorem move_mode_empty_segment:
  fixes gpx_data :: "'m gpx" and wpt :: "'m geo_point" and wpts :: "'m geo_point list"
  shows "find_closest_vertex wpt \<lparr>points = []\<rparr> = Inr (PInf, 0) \<and>
   process_move_segment (Fin m) wpts \<lparr>points = []\<rparr> = Inr \<lparr>points = []\<rparr> \<and>
   (\<exists>gpx'. process_move gpx_data (Fin m) = Inr gpx' \<and>
      list_all2 (\<lambda>trk trk'. list_all2 (\<lambda>seg seg'. length (points seg') = length (points seg))
                   (segments trk) (segments trk'))
        (tracks gpx_data) (tracks gpx'))"
proof (intro conjI)
  show "find_closest_vertex wpt \<lparr>points = []\<rparr> = Inr (PInf, 0)"
    by (simp add: find_closest_vertex_empty)
  have fin: "points seg \<noteq> [] \<or> Fin m \<noteq> PInf" for seg :: "'m track_segment" by simp
  from process_move_segment_total [OF fin, of wpts "\<lparr>points = []\<rparr>"]
  show "process_move_segment (Fin m) wpts \<lparr>points = []\<rparr> = Inr \<lparr>points = []\<rparr>"
    by (auto simp: same_frame_def)
  let ?P = "\<lambda>seg seg' :: 'm track_segment. length (points seg') = length (points seg)"
  have "\<exists>seg'. process_move_segment (Fin m) (waypoints gpx_data) seg = Inr seg' \<and> ?P seg seg'" for seg
    using process_move_segment_total [OF fin, of "waypoints gpx_data" seg]
    by (auto simp: same_frame_def)
  from process_segments_total [of "process_move_segment (Fin m) (waypoints gpx_data)" ?P gpx_data, OF this]
  have run: "\<exists>gpx'. process_segments (process_move_segment (Fin m) (waypoints gpx_data)) gpx_data = Inr gpx' \<and>
      list_all2 (\<lambda>trk trk'. list_all2 ?P (segments trk) (segments trk'))
        (tracks gpx_data) (tracks gpx')"
    by blast
  show "\<exists>gpx'. process_move gpx_data (Fin m) = Inr gpx' \<and>
      list_all2 (\<lambda>trk trk'. list_all2 ?P (segments trk) (segments trk'))
        (tracks gpx_data) (tracks gpx')"
  proof (cases "waypoints gpx_data = []")
    case True
    then show ?thesis by (simp add: process_move_def list_all2_same)
  next
    case False
    with run show ?thesis by (simp add: process_move_def)
  qed
qed

section \<open>Properties of add mode\<close>

lemma add_body_eq:
  "add_body maxdist segment wpt insertions =
     Inr (insertions @ insertion_for maxdist segment wpt)"
proof (cases "points segment = []")
  case True
  then show ?thesis
    by (simp add: add_body_def insertion_for_def find_closest_on_segment_empty Let_def)
next
  case False
  from find_closest_on_segment_nonempty [OF this, of wpt] obtain d i plat plon t v where
    r: "find_closest_on_segment wpt segment = Inr (Fin d, i, plat, plon, t, v)" and
    v: "case v of Some k \<Rightarrow> k < length (points segment) | None \<Rightarrow> i + 1 < length (points segment)"
    by blast
  show ?thesis
  proof (cases v)
    case None
    with r show ?thesis by (simp add: add_body_def insertion_for_def Let_def)
  next
    case (Some k)
    with v have "k < length (points segment)" by simp
    with r Some show ?thesis
      by (simp add: add_body_def insertion_for_def Let_def getitem_in_range duplicate_point_def)
  qed
qed

lemma add_loop:
  "for_loop (add_body maxdist segment) wpts insertions =
     Inr (insertions @ concat (map (insertion_for maxdist segment) wpts))"
  by (induction wpts arbitrary: insertions) (simp_all add: add_body_eq)

lemma insertion_for_index:
  assumes "points segment \<noteq> [] \<or> maxdist \<noteq> PInf" "x \<in> set (insertion_for maxdist segment wpt)"
  shows "fst x \<le> length (points segment)"
proof (cases "points segment = []")
  case True
  with assms(1) have "float_greater PInf maxdist"
    by (cases maxdist) (simp_all add: float_greater_def)
  with True assms(2) show ?thesis
    by (simp add: insertion_for_def find_closest_on_segment_empty)
next
  case False
  from find_closest_on_segment_nonempty [OF this, of wpt] obtain d i plat plon t v where
    r: "find_closest_on_segment wpt segment = Inr (Fin d, i, plat, plon, t, v)" and
    v: "case v of Some k \<Rightarrow> k < length (points segment) | None \<Rightarrow> i + 1 < length (points segment)"
    by blast
  with assms(2) show ?thesis
    by (cases v) (auto simp: insertion_for_def split: if_splits)
qed

lemma subseq_list_insert: "subseq xs (list_insert xs idx p)"
proof -
  have "subseq (drop idx xs) (p # drop idx xs)"
    by (rule list_emb_Cons) (rule subseq_order.refl)
  then have "subseq (take idx xs @ drop idx xs) (take idx xs @ p # drop idx xs)"
    by (simp only: subseq_append')
  then show ?thesis by (simp only: list_insert_def append_take_drop_id)
qed

lemma subseq_insert_block:
  "subseq xs (fold (\<lambda>p acc. list_insert acc idx p) ps xs)"
proof (induction ps arbitrary: xs)
  case Nil
  then show ?case by simp
next
  case (Cons p ps)
  have "subseq xs (list_insert xs idx p)" by (rule subseq_list_insert)
  also have "subseq (list_insert xs idx p) (fold (\<lambda>p acc. list_insert acc idx p) ps (list_insert xs idx p))"
    by (rule Cons.IH)
  finally show ?case by simp
qed

lemma mset_list_insert: "mset (list_insert xs idx p) = add_mset p (mset xs)"
proof -
  have "mset xs = mset (take idx xs @ drop idx xs)" by (simp only: append_take_drop_id)
  then have "mset xs = mset (take idx xs) + mset (drop idx xs)" by (simp only: mset_append)
  then show ?thesis by (simp add: list_insert_def)
qed

lemma mset_insert_block:
  "mset (fold (\<lambda>p acc. list_insert acc idx p) ps xs) = mset xs + mset ps"
proof (induction ps arbitrary: xs)
  case Nil
  then show ?case by simp
next
  case (Cons p ps)
  show ?case by (simp add: Cons.IH mset_list_insert)
qed

lemma mset_apply_insertions:
  "mset (apply_insertions xs ins) = mset xs + mset (concat (map snd ins))"
  unfolding apply_insertions_def
proof (induction ins arbitrary: xs)
  case Nil
  then show ?case by simp
next
  case (Cons x ins)
  obtain idx ps where x: "x = (idx, ps)" by (cases x)
  show ?case by (simp add: x Cons.IH mset_insert_block)
qed

lemma insert_block_in_range:
  "idx \<le> length xs \<Longrightarrow>
   fold (\<lambda>p acc. list_insert acc idx p) (rev ps) xs = take idx xs @ ps @ drop idx xs"
proof (induction ps arbitrary: xs rule: rev_induct)
  case Nil
  then show ?case by simp
next
  case (snoc p ps)
  let ?ys = "list_insert xs idx p"
  have len: "idx \<le> length ?ys" using snoc.prems by (simp add: list_insert_def)
  have tk: "take idx ?ys = take idx xs" using snoc.prems by (simp add: list_insert_def)
  have dr: "drop idx ?ys = p # drop idx xs" using snoc.prems by (simp add: list_insert_def)
  have "fold (\<lambda>p acc. list_insert acc idx p) (rev (ps @ [p])) xs =
        fold (\<lambda>p acc. list_insert acc idx p) (rev ps) ?ys"
    by simp
  also have "\<dots> = take idx ?ys @ ps @ drop idx ?ys" using len by (rule snoc.IH)
  also have "\<dots> = take idx xs @ (ps @ [p]) @ drop idx xs" by (simp add: tk dr)
  finally show ?case .
qed

lemma filter_sort_reverse:
  "filter (\<lambda>x. fst x = k) (sort_reverse ins) = filter (\<lambda>x. fst x = k) ins"
proof -
  have "filter (\<lambda>x. fst x = k) (sort_key fst (rev ins)) = filter (\<lambda>x. fst x = k) (rev ins)"
    by (rule sort_key_stable)
  then show ?thesis by (simp add: sort_reverse_def rev_filter [symmetric])
qed

lemma set_sort_reverse: "set (sort_reverse ins) = set ins"
  by (simp add: sort_reverse_def)

lemma mset_sort_reverse: "mset (sort_reverse ins) = mset ins"
  by (simp add: sort_reverse_def)

lemma sort_reverse_descending: "sorted_wrt (\<lambda>x y. fst y \<le> fst x) (sort_reverse ins)"
proof -
  have "sorted (map fst (sort_key fst (rev ins)))" by (rule sorted_sort_key)
  then have "sorted_wrt (\<lambda>x y. fst x \<le> fst y) (sort_key fst (rev ins))"
    by (simp only: sorted_map)
  then show ?thesis by (simp add: sort_reverse_def sorted_wrt_rev)
qed

lemma blocks_at_snoc:
  "blocks_at (S @ [(j, b)]) k = (if j = k then b @ blocks_at S k else blocks_at S k)"
  by (simp add: blocks_at_def)

lemma blocks_at_none: "\<forall>x \<in> set S. fst x \<noteq> k \<Longrightarrow> blocks_at S k = []"
proof -
  assume "\<forall>x \<in> set S. fst x \<noteq> k"
  then have "filter (\<lambda>x. fst x = k) S = []" by (simp add: filter_empty_conv)
  then show ?thesis by (simp add: blocks_at_def)
qed

lemma interleave_snoc_below:
  "j < m \<Longrightarrow> interleave (S @ [(j, b)]) m ps = interleave S m ps"
  by (induction ps arbitrary: m) (simp_all add: blocks_at_snoc)

lemma length_interleave: "length ps \<le> length (interleave S m ps)"
  by (induction ps arbitrary: m) (simp_all add: le_SucI trans_le_add2)

lemma interleave_insert:
  assumes "\<forall>x \<in> set S. m + i \<le> fst x" "i \<le> length ps"
  shows "take i (interleave S m ps) @ b @ drop i (interleave S m ps) =
           interleave (S @ [(m + i, b)]) m ps"
  using assms
proof (induction ps arbitrary: m i)
  case Nil
  then show ?case by (simp add: blocks_at_snoc)
next
  case (Cons p ps)
  show ?case
  proof (cases i)
    case 0
    then show ?thesis by (simp add: blocks_at_snoc interleave_snoc_below)
  next
    case (Suc i')
    have none: "blocks_at S m = []"
      using Cons.prems(1) Suc by (intro blocks_at_none) auto
    have "\<forall>x \<in> set S. Suc m + i' \<le> fst x" using Cons.prems(1) Suc by simp
    moreover have "i' \<le> length ps" using Cons.prems(2) Suc by simp
    ultimately have IH: "take i' (interleave S (Suc m) ps) @ b @ drop i' (interleave S (Suc m) ps) =
           interleave (S @ [(Suc m + i', b)]) (Suc m) ps"
      by (rule Cons.IH)
    show ?thesis using IH by (simp add: Suc none blocks_at_snoc)
  qed
qed

lemma apply_insertions_snoc:
  "apply_insertions xs (S @ [(k, b)]) =
     fold (\<lambda>p acc. list_insert acc k p) (rev b) (apply_insertions xs S)"
  by (simp add: apply_insertions_def)

lemma apply_insertions_descending:
  assumes "sorted_wrt (\<lambda>x y. fst y \<le> fst x) S" "\<forall>x \<in> set S. fst x \<le> length pts"
  shows "apply_insertions pts S = interleave S 0 pts"
  using assms
proof (induction S rule: rev_induct)
  case Nil
  have "interleave [] m ps = ps" for m and ps :: "'a list"
    by (induction ps arbitrary: m) (simp_all add: blocks_at_def)
  then show ?case by (simp add: apply_insertions_def)
next
  case (snoc x S)
  obtain k b where x: "x = (k, b)" by (cases x)
  from snoc.prems(1) have srt: "sorted_wrt (\<lambda>x y. fst y \<le> fst x) S" and
    ge: "\<forall>y \<in> set S. k \<le> fst y"
    by (auto simp: x sorted_wrt_append)
  from snoc.prems(2) have le: "\<forall>y \<in> set S. fst y \<le> length pts" and k: "k \<le> length pts"
    by (simp_all add: x)
  have IH: "apply_insertions pts S = interleave S 0 pts" using srt le by (rule snoc.IH)
  have "k \<le> length (interleave S 0 pts)"
    using k length_interleave [of pts S 0] by linarith
  then have "apply_insertions pts (S @ [(k, b)]) =
      take k (interleave S 0 pts) @ b @ drop k (interleave S 0 pts)"
    by (simp add: apply_insertions_snoc IH insert_block_in_range)
  also have "\<dots> = interleave (S @ [(0 + k, b)]) 0 pts"
    using ge k by (intro interleave_insert) simp_all
  finally show ?case by (simp add: x)
qed

lemma interleave_cong:
  assumes "\<And>k. blocks_at S k = blocks_at S' k"
  shows "interleave S m ps = interleave S' m ps"
  by (induction ps arbitrary: m) (simp_all add: assms)

lemma blocks_at_sort_reverse: "blocks_at (sort_reverse ins) k = blocks_at ins k"
  by (simp add: blocks_at_def filter_sort_reverse)

lemma apply_sorted_insertions:
  assumes "\<forall>x \<in> set ins. fst x \<le> length pts"
  shows "apply_insertions pts (sort_reverse ins) = interleave ins 0 pts"
proof -
  have "apply_insertions pts (sort_reverse ins) = interleave (sort_reverse ins) 0 pts"
    using assms by (intro apply_insertions_descending sort_reverse_descending)
      (simp add: set_sort_reverse)
  also have "\<dots> = interleave ins 0 pts"
    by (rule interleave_cong) (rule blocks_at_sort_reverse)
  finally show ?thesis .
qed

lemma process_add_segment_eq:
  "process_add_segment maxdist wpts segment =
     Inr (segment\<lparr>points := apply_insertions (points segment)
            (sort_reverse (concat (map (insertion_for maxdist segment) wpts)))\<rparr>)"
  by (simp add: process_add_segment_def add_loop)

lemma process_add_segment_interleave:
  assumes "points segment \<noteq> [] \<or> maxdist \<noteq> PInf"
  shows "process_add_segment maxdist wpts segment =
     Inr (segment\<lparr>points :=
       interleave (concat (map (insertion_for maxdist segment) wpts)) 0 (points segment)\<rparr>)"
proof -
  have "\<forall>x \<in> set (concat (map (insertion_for maxdist segment) wpts)). fst x \<le> length (points segment)"
    using insertion_for_index [OF assms] by auto
  then show ?thesis
    by (simp add: process_add_segment_eq apply_sorted_insertions)
qed

lemma find_closest_on_segment_total:
  "\<exists>md i plat plon t v. find_closest_on_segment wpt segment = Inr (md, i, plat, plon, t, v) \<and>
     (points segment = [] \<or>
      (case v of Some k \<Rightarrow> k < length (points segment)
               | None \<Rightarrow> i + 1 < length (points segment)))"
proof (cases "points segment = []")
  case True
  then show ?thesis by (simp add: find_closest_on_segment_empty)
next
  case False
  from find_closest_on_segment_nonempty [OF this, of wpt] show ?thesis by blast
qed

lemma find_closest_vertex_total:
  "\<exists>md i. find_closest_vertex wpt segment = Inr (md, i)"
proof (cases "points segment = []")
  case True
  then show ?thesis by (simp add: find_closest_vertex_empty)
next
  case False
  from find_closest_vertex_nonempty [OF this, of wpt] show ?thesis by blast
qed

lemma subseq_apply_insertions: "subseq xs (apply_insertions xs ins)"
  unfolding apply_insertions_def
proof (induction ins arbitrary: xs)
  case Nil
  then show ?case by simp
next
  case (Cons x ins)
  obtain idx ps where x: "x = (idx, ps)" by (cases x)
  let ?ys = "fold (\<lambda>p acc. list_insert acc idx p) (rev ps) xs"
  have "subseq xs ?ys" by (rule subseq_insert_block)
  also have "subseq ?ys (fold (\<lambda>(idx, ps) acc. fold (\<lambda>p acc'. list_insert acc' idx p) (rev ps) acc) ins ?ys)"
    by (rule Cons.IH)
  finally show ?case by (simp add: x)
qed

lemma mset_concat_cong:
  assumes "mset xss = mset yss"
  shows "mset (concat xss) = mset (concat yss)"
proof -
  have "mset (concat zss) = sum_mset (image_mset mset (mset zss))" for zss :: "'a list list"
    by (induction zss) simp_all
  with assms show ?thesis by simp
qed

lemma insertion_for_skip:
  assumes "find_closest_on_segment wpt segment = Inr (min_dist, rest)" "float_greater min_dist maxdist"
  shows "insertion_for maxdist segment wpt = []"
  using assms by (cases rest) (simp add: insertion_for_def)

lemma insertion_for_cases:
  "insertion_for maxdist segment w = [] \<or> (\<exists>k b. insertion_for maxdist segment w = [(k, b)])"
  by (auto simp: insertion_for_def split: sum.splits prod.splits option.splits)

lemma process_add_segment_single:
  assumes "points segment \<noteq> [] \<or> maxdist \<noteq> PInf"
  shows "process_add_segment maxdist [w] segment =
     Inr (segment\<lparr>points :=
       (case insertion_for maxdist segment w of
          [] \<Rightarrow> points segment
        | (k, block) # _ \<Rightarrow> take k (points segment) @ block @ drop k (points segment))\<rparr>)"
proof -
  from insertion_for_cases [of maxdist segment w] show ?thesis
  proof
    assume "insertion_for maxdist segment w = []"
    then show ?thesis
      by (simp add: process_add_segment_eq sort_reverse_def apply_insertions_def)
  next
    assume "\<exists>k b. insertion_for maxdist segment w = [(k, b)]"
    then obtain k b where kb: "insertion_for maxdist segment w = [(k, b)]" by blast
    with insertion_for_index [OF assms, of "(k, b)" w] have "k \<le> length (points segment)" by simp
    then show ?thesis
      by (simp add: process_add_segment_eq kb sort_reverse_def apply_insertions_def
          insert_block_in_range)
  qed
qed

text \<open>
  The corner that the next theorem leaves out: on a segment without points and with an
  infinite \<open>maxdist\<close> the infinite distance is not greater than \<open>maxdist\<close>, the matcher's
  placeholder coordinates (0, 0) are taken for a projection, and the three points are
  inserted at index 1 of the empty list, one by one, which appends them out of order.
\<close>

lemma process_add_segment_empty_inf:
  "process_add_segment PInf [w] \<lparr>points = []\<rparr> =
     Inr \<lparr>points = [make_bare_point 0 0, make_bare_point 0 0,
                    make_bare_point (latitude w) (longitude w)]\<rparr>"
  by (simp add: process_add_segment_eq insertion_for_def find_closest_on_segment_empty
      float_greater_def sort_reverse_def apply_insertions_def list_insert_def)

text \<open>
  C1, amended. On a segment with points (or with a finite \<open>maxdist\<close>) the loop over the
  waypoints collects, for every waypoint within \<open>maxdist\<close>, exactly the insertion of the
  specification: index \<open>v + 1\<close> and the block of a bare point at the waypoint and a copy
  of the vertex \<open>points ! v\<close> when the match is vertex \<open>v\<close>; index \<open>i + 1\<close> and the block
  of bare points at the projection, the waypoint and the projection when the match is
  inside edge \<open>i\<close>. Every index is in range. In the result each original point stands
  where it was, and the blocks with index \<open>k\<close> stand together between the original
  points \<open>k - 1\<close> and \<open>k\<close>, the block of the last such waypoint first. With a single
  waypoint the result is the original points with the block put in at its index.
\<close>

theorem add_mode_insertions:
  assumes "points segment \<noteq> [] \<or> maxdist \<noteq> PInf"
  shows "for_loop (add_body maxdist segment) wpts [] =
           Inr (concat (map (insertion_for maxdist segment) wpts)) \<and>
         process_add_segment maxdist wpts segment =
           Inr (segment\<lparr>points :=
             interleave (concat (map (insertion_for maxdist segment) wpts)) 0 (points segment)\<rparr>) \<and>
         (\<forall>w \<in> set wpts. \<forall>x \<in> set (insertion_for maxdist segment w).
            fst x \<le> length (points segment)) \<and>
         (\<forall>w \<in> set wpts. \<exists>md i plat plon t v.
            find_closest_on_segment w segment = Inr (md, i, plat, plon, t, v) \<and>
            (points segment = [] \<or>
             (case v of Some k \<Rightarrow> k < length (points segment)
                      | None \<Rightarrow> i + 1 < length (points segment)))) \<and>
         process_add_segment maxdist [wpt] segment =
           Inr (segment\<lparr>points :=
             (case insertion_for maxdist segment wpt of
                [] \<Rightarrow> points segment
              | (k, block) # _ \<Rightarrow>
                  take k (points segment) @ block @ drop k (points segment))\<rparr>)"
  using process_add_segment_interleave [OF assms, of wpts] insertion_for_index [OF assms]
    find_closest_on_segment_total [of _ segment] process_add_segment_single [OF assms, of wpt]
  by (simp add: add_loop)

text \<open>
  C2. In add mode the insertions are computed by a loop that reads the unmodified
  segment, and they are applied in descending order of index, entries of equal index
  in the order of their waypoints. The points of the segment before the run are a
  subsequence of its points after the run, and the other points of the result are
  exactly the points of the collected blocks. Add mode returns for every document and
  every \<open>maxdist\<close>, with the waypoints unchanged and this relation between every segment
  and its image.
\<close>

theorem add_mode_preserves_vertices:
  fixes gpx_data :: "'m gpx" and segment :: "'m track_segment"
  shows "(\<exists>insertions. for_loop (add_body maxdist segment) wpts [] = Inr insertions \<and>
       process_add_segment maxdist wpts segment =
         Inr (segment\<lparr>points := apply_insertions (points segment) (sort_reverse insertions)\<rparr>) \<and>
       sorted_wrt (\<lambda>x y. fst y \<le> fst x) (sort_reverse insertions) \<and>
       mset (sort_reverse insertions) = mset insertions \<and>
       subseq (points segment) (apply_insertions (points segment) (sort_reverse insertions)) \<and>
       mset (apply_insertions (points segment) (sort_reverse insertions)) =
         mset (points segment) + mset (concat (map snd insertions))) \<and>
     (\<exists>gpx'. process_add gpx_data maxdist = Inr gpx' \<and>
       waypoints gpx' = waypoints gpx_data \<and>
       list_all2 (\<lambda>trk trk'. list_all2 (\<lambda>seg seg'. subseq (points seg) (points seg'))
                    (segments trk) (segments trk'))
         (tracks gpx_data) (tracks gpx'))"
proof (intro conjI)
  let ?ins = "concat (map (insertion_for maxdist segment) wpts)"
  have "mset (concat (map snd (sort_reverse ?ins))) = mset (concat (map snd ?ins))"
  proof -
    have "mset (map snd (sort_reverse ?ins)) = mset (map snd ?ins)"
      by (simp only: mset_map mset_sort_reverse)
    then show ?thesis by (rule mset_concat_cong)
  qed
  then show "\<exists>insertions. for_loop (add_body maxdist segment) wpts [] = Inr insertions \<and>
       process_add_segment maxdist wpts segment =
         Inr (segment\<lparr>points := apply_insertions (points segment) (sort_reverse insertions)\<rparr>) \<and>
       sorted_wrt (\<lambda>x y. fst y \<le> fst x) (sort_reverse insertions) \<and>
       mset (sort_reverse insertions) = mset insertions \<and>
       subseq (points segment) (apply_insertions (points segment) (sort_reverse insertions)) \<and>
       mset (apply_insertions (points segment) (sort_reverse insertions)) =
         mset (points segment) + mset (concat (map snd insertions))"
    by (intro exI [of _ ?ins])
      (simp add: add_loop process_add_segment_eq sort_reverse_descending mset_sort_reverse
        subseq_apply_insertions mset_apply_insertions)
  let ?P = "\<lambda>seg seg' :: 'm track_segment. subseq (points seg) (points seg')"
  have "\<exists>seg'. process_add_segment maxdist (waypoints gpx_data) seg = Inr seg' \<and> ?P seg seg'" for seg
    by (simp add: process_add_segment_eq subseq_apply_insertions)
  from process_segments_total [of "process_add_segment maxdist (waypoints gpx_data)" ?P gpx_data, OF this]
  have run: "\<exists>gpx'. process_segments (process_add_segment maxdist (waypoints gpx_data)) gpx_data = Inr gpx' \<and>
       waypoints gpx' = waypoints gpx_data \<and>
       list_all2 (\<lambda>trk trk'. list_all2 ?P (segments trk) (segments trk'))
         (tracks gpx_data) (tracks gpx')" .
  show "\<exists>gpx'. process_add gpx_data maxdist = Inr gpx' \<and>
       waypoints gpx' = waypoints gpx_data \<and>
       list_all2 (\<lambda>trk trk'. list_all2 ?P (segments trk) (segments trk'))
         (tracks gpx_data) (tracks gpx')"
  proof (cases "waypoints gpx_data = []")
    case True
    then show ?thesis by (simp add: process_add_def list_all2_same)
  next
    case False
    with run show ?thesis by (simp add: process_add_def)
  qed
qed

text \<open>
  C8. Neither matcher raises. A waypoint whose closest match on the segment is farther
  than \<open>maxdist\<close> adds no insertion in add mode: alone it leaves the segment as it is,
  and among other waypoints the run gives what it gives without it. In move mode a
  waypoint whose closest vertex is farther than \<open>maxdist\<close> leaves the segment as it is.
\<close>

theorem skipped_waypoint_no_effect:
  "(\<exists>r. find_closest_on_segment wpt segment = Inr r) \<and>
   (\<exists>r. find_closest_vertex wpt segment = Inr r) \<and>
   (find_closest_on_segment wpt segment = Inr (min_dist, rest) \<and> float_greater min_dist maxdist \<longrightarrow>
      add_body maxdist segment wpt insertions = Inr insertions \<and>
      process_add_segment maxdist [wpt] segment = Inr segment \<and>
      process_add_segment maxdist (ws1 @ wpt # ws2) segment =
        process_add_segment maxdist (ws1 @ ws2) segment) \<and>
   (find_closest_vertex wpt segment = Inr (min_dist', vidx) \<and> float_greater min_dist' maxdist \<longrightarrow>
      move_body maxdist wpt segment = Inr segment \<and>
      process_move_segment maxdist [wpt] segment = Inr segment)"
proof (intro conjI impI)
  show "\<exists>r. find_closest_on_segment wpt segment = Inr r"
    using find_closest_on_segment_total [of wpt segment] by blast
  show "\<exists>r. find_closest_vertex wpt segment = Inr r"
    using find_closest_vertex_total [of wpt segment] by blast
next
  assume "find_closest_on_segment wpt segment = Inr (min_dist, rest) \<and> float_greater min_dist maxdist"
  then have skip: "insertion_for maxdist segment wpt = []"
    using insertion_for_skip by blast
  show "add_body maxdist segment wpt insertions = Inr insertions"
    by (simp add: add_body_eq skip)
  show "process_add_segment maxdist [wpt] segment = Inr segment"
    by (simp add: process_add_segment_eq skip sort_reverse_def apply_insertions_def)
  show "process_add_segment maxdist (ws1 @ wpt # ws2) segment =
        process_add_segment maxdist (ws1 @ ws2) segment"
    by (simp add: process_add_segment_eq skip)
next
  assume a: "find_closest_vertex wpt segment = Inr (min_dist', vidx) \<and> float_greater min_dist' maxdist"
  then show m: "move_body maxdist wpt segment = Inr segment"
    by (simp add: move_body_skip)
  then show "process_move_segment maxdist [wpt] segment = Inr segment"
    by (simp add: process_move_segment_def)
qed

section \<open>The scenario, evaluated\<close>

text \<open>
  One degree of longitude on the equator is between 70 and 150 kilometres (with
  \<open>2 \<le> pi < 4\<close>), which is all the comparisons below need.
\<close>

lemma equator_project:
  "project_onto_segment y x 0 0 0 1 = (0, max 0 (min 1 x), max 0 (min 1 x))"
  by (simp add: project_onto_segment_def Let_def radians_def)

lemma equator_between:
  assumes "1 / 1000 \<le> x" "x \<le> 999 / 1000" "\<bar>y\<bar> \<le> 180"
  shows "find_closest_on_segment (waypoint_at y x) equator_segment =
           Inr (Fin (EARTH_RADIUS * pi * \<bar>y\<bar> / 180), 0, 0, x, x, None)"
proof -
  have t: "max 0 (min 1 x) = x" using assms by simp
  have d: "haversine_value y x 0 x = EARTH_RADIUS * pi * \<bar>y\<bar> / 180"
    using assms(3) by (simp add: haversine_value_meridian)
  have "70000 * (1 / 1000) \<le> EARTH_RADIUS * pi / 180 * x"
    using metres_per_degree(1) assms(1) by (intro mult_mono) simp_all
  then have da: "\<not> haversine_value 0 x 0 0 < TOLERANCE"
    using assms by (simp add: haversine_value_equator TOLERANCE_def)
  have "70000 * (1 / 1000) \<le> EARTH_RADIUS * pi / 180 * (1 - x)"
    using metres_per_degree(1) assms(2) by (intro mult_mono) simp_all
  then have db: "\<not> haversine_value 0 x 0 1 < TOLERANCE"
    using assms by (simp add: haversine_value_equator TOLERANCE_def)
  have v: "vertex_of [start_point, end_point] 0 0 x x = None"
    using da db assms by (simp add: vertex_of_def)
  show ?thesis
    by (simp add: find_closest_on_segment_two equator_project t d v)
qed

lemma equator_before:
  assumes "x \<le> 0" "- 180 \<le> x"
  shows "find_closest_on_segment (waypoint_at 0 x) equator_segment =
           Inr (Fin (EARTH_RADIUS * pi * \<bar>x\<bar> / 180), 0, 0, 0, 0, Some 0)"
proof -
  have t: "max 0 (min 1 x) = 0" using assms by simp
  have d: "haversine_value 0 x 0 0 = EARTH_RADIUS * pi * \<bar>x\<bar> / 180"
    using assms by (simp add: haversine_value_equator)
  have v: "vertex_of [start_point, end_point] 0 0 0 0 = Some 0"
    by (simp add: vertex_of_def)
  show ?thesis
    by (simp add: find_closest_on_segment_two equator_project t d v)
qed

lemma equator_after:
  assumes "1 \<le> x" "x \<le> 180"
  shows "find_closest_on_segment (waypoint_at 0 x) equator_segment =
           Inr (Fin (EARTH_RADIUS * pi * (x - 1) / 180), 0, 0, 1, 1, Some 1)"
proof -
  have t: "max 0 (min 1 x) = 1" using assms by simp
  have d: "haversine_value 0 x 0 1 = EARTH_RADIUS * pi * (x - 1) / 180"
    using assms by (simp add: haversine_value_equator)
  have v: "vertex_of [start_point, end_point] 0 0 1 1 = Some 1"
    by (simp add: vertex_of_def)
  show ?thesis
    by (simp add: find_closest_on_segment_two equator_project t d v)
qed

lemma equator_vertex:
  assumes "\<bar>x\<bar> \<le> 179"
  shows "find_closest_vertex (waypoint_at 0 x) equator_segment =
           Inr (if \<bar>1 - x\<bar> < \<bar>x\<bar> then (Fin (EARTH_RADIUS * pi * \<bar>1 - x\<bar> / 180), 1)
                else (Fin (EARTH_RADIUS * pi * \<bar>x\<bar> / 180), 0))"
proof -
  have a: "haversine_value 0 x 0 0 = EARTH_RADIUS * pi * \<bar>x\<bar> / 180"
    using assms by (simp add: haversine_value_equator)
  have b: "haversine_value 0 x 0 1 = EARTH_RADIUS * pi * \<bar>1 - x\<bar> / 180"
    using assms by (simp add: haversine_value_equator)
  have c: "(haversine_value 0 x 0 1 < haversine_value 0 x 0 0) = (\<bar>1 - x\<bar> < \<bar>x\<bar>)"
    unfolding a b by (simp add: EARTH_RADIUS_def)
  have "find_closest_vertex (waypoint_at 0 x) equator_segment =
     Inr (if haversine_value 0 x 0 1 < haversine_value 0 x 0 0
          then (Fin (haversine_value 0 x 0 1), 1) else (Fin (haversine_value 0 x 0 0), 0))"
    by (simp add: find_closest_vertex_two)
  then show ?thesis
    by (simp only: c) (simp only: a b)
qed

lemma beyond_100: "float_greater (Fin (EARTH_RADIUS * pi * 89 / 180)) (Fin 100)"
  using metres_per_degree(1) by (simp add: float_greater_def)

lemma near_enough:
  assumes "\<bar>y\<bar> \<le> 1 / 1000"
  shows "\<not> float_greater (Fin (EARTH_RADIUS * pi * \<bar>y\<bar> / 180)) (Fin 200)"
proof -
  have "EARTH_RADIUS * pi / 180 * \<bar>y\<bar> \<le> 150000 * (1 / 1000)"
    using metres_per_degree(2) assms by (intro mult_mono) simp_all
  then show ?thesis by (simp add: float_greater_def)
qed

lemma insertion_between:
  assumes "1 / 1000 \<le> x" "x \<le> 999 / 1000"
  shows "insertion_for (Fin 200) equator_segment (waypoint_at (1 / 1000) x) =
           [(1, [make_bare_point 0 x, make_bare_point (1 / 1000) x, make_bare_point 0 x])]"
proof -
  have r: "find_closest_on_segment (waypoint_at (1 / 1000) x) equator_segment =
           Inr (Fin (EARTH_RADIUS * pi * \<bar>1 / 1000\<bar> / 180), 0, 0, x, x, None)"
    using assms by (intro equator_between) simp_all
  have n: "\<not> float_greater (Fin (EARTH_RADIUS * pi * \<bar>1 / 1000\<bar> / 180)) (Fin 200)"
    by (rule near_enough) simp
  show ?thesis
    unfolding insertion_for_def r using n by simp
qed

lemma insertion_vertex:
  "insertion_for (Fin 200) equator_segment (waypoint_at 0 (- (1 / 1000))) =
     [(1, [make_bare_point 0 (- (1 / 1000)), start_point])]"
proof -
  have r: "find_closest_on_segment (waypoint_at 0 (- (1 / 1000))) equator_segment =
           Inr (Fin (EARTH_RADIUS * pi * \<bar>- (1 / 1000)\<bar> / 180), 0, 0, 0, 0, Some 0)"
    by (intro equator_before) simp_all
  have n: "\<not> float_greater (Fin (EARTH_RADIUS * pi * \<bar>- (1 / 1000)\<bar> / 180)) (Fin 200)"
    by (rule near_enough) simp
  show ?thesis
    unfolding insertion_for_def r using n by simp
qed

text \<open>
  Witness for C1: a waypoint 0.001 degrees north of the middle of the edge gives the
  three bare points after the start point; a waypoint on the equator west of the start
  point matches the start vertex and gives a bare point and a copy of the start point.
\<close>

theorem add_mode_insertions_witness:
  "points equator_segment \<noteq> [] \<and>
   process_add_segment (Fin 200) [waypoint_at (1 / 1000) (1 / 2)] equator_segment =
     Inr \<lparr>points = [start_point, make_bare_point 0 (1 / 2), make_bare_point (1 / 1000) (1 / 2),
                    make_bare_point 0 (1 / 2), end_point]\<rparr> \<and>
   process_add_segment (Fin 200) [waypoint_at 0 (- (1 / 1000))] equator_segment =
     Inr \<lparr>points = [start_point, make_bare_point 0 (- (1 / 1000)), start_point, end_point]\<rparr>"
proof -
  have ne: "points equator_segment \<noteq> [] \<or> Fin 200 \<noteq> PInf" by simp
  have a: "insertion_for (Fin 200) equator_segment (waypoint_at (1 / 1000) (1 / 2)) =
     [(1, [make_bare_point 0 (1 / 2), make_bare_point (1 / 1000) (1 / 2), make_bare_point 0 (1 / 2)])]"
    by (rule insertion_between) simp_all
  show ?thesis
    using add_mode_insertions [OF ne, of "[waypoint_at (1 / 1000) (1 / 2)]"]
      add_mode_insertions [OF ne, of "[waypoint_at 0 (- (1 / 1000))]"]
    by (simp add: a insertion_vertex blocks_at_def)
qed

text \<open>
  C1 as the specification words it fails for two waypoints that match inside the same
  edge: the three points that follow \<open>points[0]\<close> are those of the second waypoint, and
  the block of the first waypoint comes after them.
\<close>

theorem add_mode_second_block_first:
  "process_add_segment (Fin 200)
     [waypoint_at (1 / 1000) (1 / 4), waypoint_at (1 / 1000) (3 / 4)] equator_segment =
   Inr \<lparr>points =
     [start_point,
      make_bare_point 0 (3 / 4), make_bare_point (1 / 1000) (3 / 4), make_bare_point 0 (3 / 4),
      make_bare_point 0 (1 / 4), make_bare_point (1 / 1000) (1 / 4), make_bare_point 0 (1 / 4),
      end_point]\<rparr>"
proof -
  have ne: "points equator_segment \<noteq> [] \<or> Fin 200 \<noteq> PInf" by simp
  have a: "insertion_for (Fin 200) equator_segment (waypoint_at (1 / 1000) (1 / 4)) =
     [(1, [make_bare_point 0 (1 / 4), make_bare_point (1 / 1000) (1 / 4), make_bare_point 0 (1 / 4)])]"
    by (rule insertion_between) simp_all
  have b: "insertion_for (Fin 200) equator_segment (waypoint_at (1 / 1000) (3 / 4)) =
     [(1, [make_bare_point 0 (3 / 4), make_bare_point (1 / 1000) (3 / 4), make_bare_point 0 (3 / 4)])]"
    by (rule insertion_between) simp_all
  show ?thesis
    by (simp add: process_add_segment_interleave [OF ne] a b blocks_at_def)
qed

text \<open>
  Witness for C4: the match of a waypoint near the middle of the edge has \<open>t = 1/2\<close> and
  no vertex.
\<close>

theorem vertex_classification_witness:
  "points equator_segment \<noteq> [] \<and>
   find_closest_on_segment (waypoint_at (1 / 1000) (1 / 2)) equator_segment =
     Inr (Fin (EARTH_RADIUS * pi * (1 / 1000) / 180), 0, 0, 1 / 2, 1 / 2, None)"
proof -
  have ne: "points equator_segment \<noteq> []" by simp
  have r: "find_closest_on_segment (waypoint_at (1 / 1000) (1 / 2)) equator_segment =
           Inr (Fin (EARTH_RADIUS * pi * \<bar>1 / 1000\<bar> / 180), 0, 0, 1 / 2, 1 / 2, None)"
    by (intro equator_between) simp_all
  show ?thesis
    using vertex_classification [OF ne, of "waypoint_at (1 / 1000) (1 / 2)"] r by simp
qed

text \<open>
  Witness for C3: a waypoint 0.001 degrees east of the start point moves the start point
  there; its elevation, time and metadata, and the end point, stay.
\<close>

theorem move_mode_frame_witness:
  "find_closest_vertex (waypoint_at 0 (1 / 1000)) equator_segment =
     Inr (Fin (EARTH_RADIUS * pi * (1 / 1000) / 180), 0) \<and>
   \<not> float_greater (Fin (EARTH_RADIUS * pi * (1 / 1000) / 180)) (Fin 200) \<and>
   move_body (Fin 200) (waypoint_at 0 (1 / 1000)) equator_segment =
     Inr \<lparr>points = [\<lparr>latitude = 0, longitude = 1 / 1000, elevation = Some 120, time = Some 0,
                      metadata = Some ''start''\<rparr>, end_point]\<rparr> \<and>
   points equator_segment \<noteq> [] \<and>
   process_move_segment (Fin 200) [waypoint_at 0 (1 / 1000)] equator_segment =
     Inr \<lparr>points = [\<lparr>latitude = 0, longitude = 1 / 1000, elevation = Some 120, time = Some 0,
                      metadata = Some ''start''\<rparr>, end_point]\<rparr>"
proof -
  have r: "find_closest_vertex (waypoint_at 0 (1 / 1000)) equator_segment =
     Inr (Fin (EARTH_RADIUS * pi * (1 / 1000) / 180), 0)"
    using equator_vertex [of "1 / 1000"] by simp
  have n: "\<not> float_greater (Fin (EARTH_RADIUS * pi * (1 / 1000) / 180)) (Fin 200)"
    using near_enough [of "1 / 1000"] by simp
  from r n have m: "move_body (Fin 200) (waypoint_at 0 (1 / 1000)) equator_segment =
     Inr \<lparr>points = [\<lparr>latitude = 0, longitude = 1 / 1000, elevation = Some 120, time = Some 0,
                      metadata = Some ''start''\<rparr>, end_point]\<rparr>"
    using move_mode_frame [of "waypoint_at 0 (1 / 1000)" equator_segment
        "EARTH_RADIUS * pi * (1 / 1000) / 180" 0 "Fin 200" "[waypoint_at 0 (1 / 1000)]"]
    by simp
  then have "process_move_segment (Fin 200) [waypoint_at 0 (1 / 1000)] equator_segment =
     Inr \<lparr>points = [\<lparr>latitude = 0, longitude = 1 / 1000, elevation = Some 120, time = Some 0,
                      metadata = Some ''start''\<rparr>, end_point]\<rparr>"
    by (simp add: process_move_segment_def)
  with r n m show ?thesis by simp
qed

text \<open>
  Witness for C8: a waypoint at longitude 90 is 89 degrees from the segment, farther
  than 100 metres, and changes nothing in either mode.
\<close>

theorem skipped_waypoint_no_effect_witness:
  "find_closest_on_segment (waypoint_at 0 90) equator_segment =
     Inr (Fin (EARTH_RADIUS * pi * 89 / 180), 0, 0, 1, 1, Some 1) \<and>
   find_closest_vertex (waypoint_at 0 90) equator_segment =
     Inr (Fin (EARTH_RADIUS * pi * 89 / 180), 1) \<and>
   float_greater (Fin (EARTH_RADIUS * pi * 89 / 180)) (Fin 100) \<and>
   add_body (Fin 100) equator_segment (waypoint_at 0 90) [] = Inr [] \<and>
   process_add_segment (Fin 100) [waypoint_at 0 90] equator_segment = Inr equator_segment \<and>
   move_body (Fin 100) (waypoint_at 0 90) equator_segment = Inr equator_segment \<and>
   process_move_segment (Fin 100) [waypoint_at 0 90] equator_segment = Inr equator_segment"
proof -
  have r: "find_closest_on_segment (waypoint_at 0 90) equator_segment =
     Inr (Fin (EARTH_RADIUS * pi * 89 / 180), 0, 0, 1, 1, Some 1)"
    using equator_after [of 90] by simp
  have v: "find_closest_vertex (waypoint_at 0 90) equator_segment =
     Inr (Fin (EARTH_RADIUS * pi * 89 / 180), 1)"
    using equator_vertex [of 90] by simp
  show ?thesis
    using skipped_waypoint_no_effect [where wpt = "waypoint_at 0 90" and segment = equator_segment
        and min_dist = "Fin (EARTH_RADIUS * pi * 89 / 180)" and rest = "(0, 0, 1, 1, Some 1)"
        and maxdist = "Fin 100" and insertions = "[]" and ?ws1.0 = "[]" and ?ws2.0 = "[]"
        and min_dist' = "Fin (EARTH_RADIUS * pi * 89 / 180)" and vidx = 1]
      r v beyond_100
    by simp
qed

end
